theory Spec2Isabelle
  imports Complex_Main "HOL-Library.Word"
begin

section \<open>Data model\<close>

text \<open>
  The audio pipeline of the player: \<^verbatim>\<open>AudioDecoder\<close> (decode thread, frame queue,
  SDL output callback, clock), \<^verbatim>\<open>VideoDecoder\<close> (only what the player's transport
  commands touch) and \<^verbatim>\<open>MediaPlayer\<close> (play, pause, stop, seek, volume).

  Times in seconds (\<^verbatim>\<open>double\<close>) are real numbers here: the code stores and compares
  them, and the one product it forms, \<^verbatim>\<open>frame->pts\<close> times the time base, is taken
  exactly. Sizes and positions are natural numbers; every block is far below the range of
  \<^verbatim>\<open>int\<close>.
\<close>

type_synonym byte = "8 word"

text \<open>\<^verbatim>\<open>struct AudioFrame\<close> of AudioDecoder.h.\<close>

record AudioFrame =
  data :: "byte list"
  pts :: int
  timestamp :: real

text \<open>
  What FFmpeg hands to \<^verbatim>\<open>convertAudioFrame\<close> for one decoded \<^verbatim>\<open>AVFrame\<close>: the value of
  \<^verbatim>\<open>swr_get_out_samples\<close>; the value of \<^verbatim>\<open>swr_convert\<close>; the output buffer as
  \<^verbatim>\<open>swr_convert\<close> leaves it (its length is \<^verbatim>\<open>outputBufferSize\<close>, which is positive because
  the sample count has been tested to be positive); the size that
  \<^verbatim>\<open>av_samples_get_buffer_size\<close> gives for the converted sample count when that count is
  positive; and \<^verbatim>\<open>frame->pts\<close>.
\<close>

record AVFrame =
  outputSamples :: int
  convertedSamples :: int
  convertedBytes :: "byte list"
  actualSize :: int
  frame_pts :: int

text \<open>
  What the demuxer and the codec answer for one iteration of the decode loop: the return
  code of \<^verbatim>\<open>av_read_frame\<close>, the packet's stream index, the return code of
  \<^verbatim>\<open>avcodec_send_packet\<close> for it, and the successive answers of
  \<^verbatim>\<open>avcodec_receive_frame\<close> (return code and frame). When the answers run out the
  codec has nothing more to give (\<^verbatim>\<open>EAGAIN\<close>, a non-zero code).
\<close>

record AVPacket =
  read_ret :: int
  stream_index :: int
  send_ret :: int
  receives :: "(int \<times> AVFrame) list"

text \<open>
  What the decoder does that others can observe, in the order it happens: the library
  calls of the transport commands, the clearing of the queue and of the current block, and
  every assignment to the clock. \<^verbatim>\<open>av_seek_frame\<close> carries the time in seconds that the
  code turns into the timestamp argument; that conversion is floating-point arithmetic and
  is not modelled.
\<close>

datatype event =
  SDL_PauseAudioDevice bool
  | SDL_CloseAudioDevice
  | av_seek_frame real
  | avcodec_flush_buffers
  | queue_cleared
  | buffer_cleared
  | clock_set real

text \<open>
  The fields of \<^verbatim>\<open>class AudioDecoder\<close> that the modelled member functions read or write.
  \<^verbatim>\<open>formatContext\<close> is true when the pointer is not null; \<^verbatim>\<open>time_base\<close> is
  \<^verbatim>\<open>av_q2d(audioStream->time_base)\<close>; \<^verbatim>\<open>calls\<close> is the list of events so far.
\<close>

record AudioDecoder =
  formatContext :: bool
  audioStreamIndex :: int
  time_base :: real
  audioDevice :: nat
  isDecoding :: bool
  playbackStarted :: bool
  playbackPaused :: bool
  shouldStop :: bool
  audioFrameQueue :: "AudioFrame list"
  currentTime :: real
  audioBuffer :: "byte list"
  bufferPosition :: nat
  calls :: "event list"

text \<open>An assignment to \<^verbatim>\<open>currentTime\<close>.\<close>

definition setClock :: "real \<Rightarrow> AudioDecoder \<Rightarrow> AudioDecoder" where
  "setClock t s = s\<lparr>currentTime := t, calls := calls s @ [clock_set t]\<rparr>"

text \<open>\<^verbatim>\<open>audioBuffer.clear(); bufferPosition = 0;\<close>\<close>

definition clearBuffer :: "AudioDecoder \<Rightarrow> AudioDecoder" where
  "clearBuffer s = s\<lparr>audioBuffer := [], bufferPosition := 0, calls := calls s @ [buffer_cleared]\<rparr>"

section \<open>The output callback\<close>

text \<open>\<^verbatim>\<open>memcpy(dst + pos, src + off, n)\<close> on byte sequences.\<close>

definition memcpy :: "byte list \<Rightarrow> nat \<Rightarrow> byte list \<Rightarrow> nat \<Rightarrow> nat \<Rightarrow> byte list" where
  "memcpy dst pos src off n = take pos dst @ take n (drop off src) @ drop (pos + n) dst"

text \<open>
  Lines 380 to 386 of \<^verbatim>\<open>fillAudioBuffer\<close>: take the front frame of the queue, make its
  data the current buffer, and set the clock to its timestamp.
\<close>

definition popFrame :: "AudioDecoder \<Rightarrow> AudioDecoder" where
  "popFrame s =
     (case audioFrameQueue s of
        [] \<Rightarrow> s
      | frame # rest \<Rightarrow>
          setClock (timestamp frame)
            (s\<lparr>audioFrameQueue := rest, audioBuffer := data frame, bufferPosition := 0\<rparr>))"

text \<open>The \<^verbatim>\<open>while (bytesNeeded > 0)\<close> loop of \<^verbatim>\<open>fillAudioBuffer\<close>.\<close>

function fill_loop ::
  "nat \<Rightarrow> nat \<Rightarrow> byte list \<Rightarrow> AudioDecoder \<Rightarrow> byte list \<times> AudioDecoder" where
  "fill_loop bytesNeeded streamPos stream s =
     (if bytesNeeded > 0 then
        (if bufferPosition s \<ge> length (audioBuffer s) \<and> audioFrameQueue s = []
         then (stream, s)
         else
           (let s1 = (if bufferPosition s \<ge> length (audioBuffer s) then popFrame s else s);
                availableBytes = length (audioBuffer s1) - bufferPosition s1;
                bytesToCopy = min bytesNeeded availableBytes;
                stream1 = memcpy stream streamPos (audioBuffer s1) (bufferPosition s1) bytesToCopy
            in fill_loop (bytesNeeded - bytesToCopy) (streamPos + bytesToCopy) stream1
                 (s1\<lparr>bufferPosition := bufferPosition s1 + bytesToCopy\<rparr>)))
      else (stream, s))"
  by pat_completeness auto
termination
  by (relation "measure (\<lambda>(n, p, st, s). n + length (audioFrameQueue s))")
     (auto simp: popFrame_def setClock_def split: list.splits)

declare fill_loop.simps [simp del]

text \<open>
  \<^verbatim>\<open>fillAudioBuffer(stream, len)\<close>: the argument is the device buffer as it comes in (its
  length is \<^verbatim>\<open>len\<close>), the result is the buffer as it is left and the decoder after the call.
\<close>

definition fillAudioBuffer :: "byte list \<Rightarrow> AudioDecoder \<Rightarrow> byte list \<times> AudioDecoder" where
  "fillAudioBuffer stream s =
     (let len = length stream;
          cleared = replicate len (0 :: byte)
      in if playbackPaused s then (cleared, s)
         else fill_loop len 0 cleared s)"

text \<open>The bytes that are ready to play: the rest of the current block, then the queued blocks.\<close>

definition pending :: "AudioDecoder \<Rightarrow> byte list" where
  "pending s = drop (bufferPosition s) (audioBuffer s) @ concat (map data (audioFrameQueue s))"

section \<open>Conversion and the queue\<close>

text \<open>
  \<^verbatim>\<open>std::vector::resize\<close> with an \<^verbatim>\<open>int\<close> argument: a negative size becomes a huge
  \<^verbatim>\<open>size_t\<close> and the call throws \<^verbatim>\<open>std::length_error\<close>; otherwise the vector is cut or
  filled up with zeros.
\<close>

datatype exception = length_error

definition resize :: "int \<Rightarrow> byte list \<Rightarrow> exception + byte list" where
  "resize n xs =
     (if n < 0 then Inl length_error
      else Inr (take (nat n) xs @ replicate (nat n - length xs) 0))"

text \<open>
  FFmpeg's \<^verbatim>\<open>av_samples_get_buffer_size\<close> for two channels of 16-bit samples: the error
  code \<^verbatim>\<open>AVERROR(EINVAL)\<close> for a sample count of zero or less, and otherwise the size
  that comes with the frame.
\<close>

definition AVERROR_EINVAL :: int where
  "AVERROR_EINVAL = - 22"

definition av_samples_get_buffer_size :: "int \<Rightarrow> int \<Rightarrow> int" where
  "av_samples_get_buffer_size nb_samples answer =
     (if nb_samples \<le> 0 then AVERROR_EINVAL else answer)"

text \<open>
  \<^verbatim>\<open>convertAudioFrame\<close>: \<open>Inr None\<close> where the code returns false, \<open>Inr (Some \<dots>)\<close> with the
  filled \<^verbatim>\<open>AudioFrame\<close> where it returns true, \<open>Inl\<close> where the second \<^verbatim>\<open>resize\<close> throws
  (as it does when \<^verbatim>\<open>swr_convert\<close> has produced no sample).
\<close>

definition convertAudioFrame :: "real \<Rightarrow> AVFrame \<Rightarrow> exception + AudioFrame option" where
  "convertAudioFrame tb frame =
     (if outputSamples frame \<le> 0 then Inr None
      else if convertedSamples frame < 0 then Inr None
      else
        (case resize (av_samples_get_buffer_size (convertedSamples frame) (actualSize frame))
                (convertedBytes frame) of
           Inl e \<Rightarrow> Inl e
         | Inr bytes \<Rightarrow>
             Inr (Some \<lparr>data = bytes, pts = frame_pts frame,
                        timestamp = real_of_int (frame_pts frame) * tb\<rparr>)))"

text \<open>
  The body of the receive loop of \<^verbatim>\<open>decodeNextFrame\<close> (lines 301 to 309). Nothing catches
  the exception of \<^verbatim>\<open>convertAudioFrame\<close>.
\<close>

definition pushFrame :: "AVFrame \<Rightarrow> AudioDecoder \<Rightarrow> exception + AudioDecoder" where
  "pushFrame frame s =
     (case convertAudioFrame (time_base s) frame of
        Inl e \<Rightarrow> Inl e
      | Inr None \<Rightarrow> Inr s
      | Inr (Some audioFrame) \<Rightarrow> Inr (s\<lparr>audioFrameQueue := audioFrameQueue s @ [audioFrame]\<rparr>))"

text \<open>\<^verbatim>\<open>while (avcodec_receive_frame(codecContext, frame) == 0)\<close>.\<close>

fun drain :: "(int \<times> AVFrame) list \<Rightarrow> AudioDecoder \<Rightarrow> exception + AudioDecoder" where
  "drain [] s = Inr s"
| "drain ((ret, frame) # rest) s =
     (if ret = 0
      then (case pushFrame frame s of Inl e \<Rightarrow> Inl e | Inr s1 \<Rightarrow> drain rest s1)
      else Inr s)"

text \<open>\<^verbatim>\<open>decodeNextFrame\<close> as one call: the returned flag and the decoder after it.\<close>

definition decodeNextFrame :: "AVPacket \<Rightarrow> AudioDecoder \<Rightarrow> exception + bool \<times> AudioDecoder" where
  "decodeNextFrame packet s =
     (if read_ret packet < 0 then Inr (False, s)
      else if stream_index packet \<noteq> audioStreamIndex s then Inr (True, s)
      else if send_ret packet < 0 then Inr (False, s)
      else (case drain (receives packet) s of Inl e \<Rightarrow> Inl e | Inr s1 \<Rightarrow> Inr (True, s1)))"

section \<open>The other threads, seen from one call\<close>

text \<open>
  While the control thread is inside a call, the decode thread may push the frame it has
  decoded (lines 303 to 307) and the audio device, when it is open, may call
  \<^verbatim>\<open>fillAudioBuffer\<close> on a buffer. A decode thread that throws is gone and pushes nothing.
\<close>

datatype env = Push AVFrame | Callback "byte list"

fun env_step :: "env \<Rightarrow> AudioDecoder \<Rightarrow> AudioDecoder" where
  "env_step (Push frame) s = (case pushFrame frame s of Inl e \<Rightarrow> s | Inr s1 \<Rightarrow> s1)"
| "env_step (Callback stream) s =
     (if audioDevice s \<noteq> 0 then snd (fillAudioBuffer stream s) else s)"

fun interfere :: "env list \<Rightarrow> AudioDecoder \<Rightarrow> AudioDecoder" where
  "interfere [] s = s"
| "interfere (e # es) s = interfere es (env_step e s)"

text \<open>No other thread acts.\<close>

definition quiet :: "nat \<Rightarrow> env list" where
  "quiet i = []"

section \<open>Transport commands of the audio decoder\<close>

definition AudioDecoder_isFileOpen :: "AudioDecoder \<Rightarrow> bool" where
  "AudioDecoder_isFileOpen s = formatContext s"

definition AudioDecoder_getCurrentTime :: "AudioDecoder \<Rightarrow> real" where
  "AudioDecoder_getCurrentTime s = currentTime s"

definition isPlaying :: "AudioDecoder \<Rightarrow> bool" where
  "isPlaying s = (playbackStarted s \<and> \<not> playbackPaused s)"

definition clearQueue :: "AudioDecoder \<Rightarrow> AudioDecoder" where
  "clearQueue s = s\<lparr>audioFrameQueue := [], calls := calls s @ [queue_cleared]\<rparr>"

definition pausePlayback :: "AudioDecoder \<Rightarrow> AudioDecoder" where
  "pausePlayback s =
     (if playbackStarted s \<and> \<not> playbackPaused s
      then s\<lparr>playbackPaused := True, calls := calls s @ [SDL_PauseAudioDevice True]\<rparr>
      else s)"

definition resumePlayback :: "AudioDecoder \<Rightarrow> AudioDecoder" where
  "resumePlayback s =
     (if playbackStarted s \<and> playbackPaused s
      then s\<lparr>playbackPaused := False, calls := calls s @ [SDL_PauseAudioDevice False]\<rparr>
      else s)"

text \<open>
  \<^verbatim>\<open>startPlayback\<close>; \<open>dev\<close> is the device id that \<^verbatim>\<open>SDL_OpenAudioDevice\<close> returns (0 on
  failure). The decode thread it starts is the worker of the next section.
\<close>

definition startPlayback :: "nat \<Rightarrow> AudioDecoder \<Rightarrow> bool \<times> AudioDecoder" where
  "startPlayback dev s =
     (if playbackStarted s then (True, s)
      else if dev = 0 then (False, s\<lparr>audioDevice := 0\<rparr>)
      else
        (let s1 = clearBuffer (clearQueue (s\<lparr>audioDevice := dev\<rparr>));
             s2 = s1\<lparr>isDecoding := True, shouldStop := False, playbackPaused := False\<rparr>;
             s3 = s2\<lparr>calls := calls s2 @ [SDL_PauseAudioDevice False]\<rparr>
         in (True, s3\<lparr>playbackStarted := True\<rparr>)))"

text \<open>
  \<^verbatim>\<open>stopPlayback\<close>, seen from the control thread: it returns after the decode thread has
  been joined and the device closed, so whatever that thread pushed last is removed by
  \<^verbatim>\<open>clearQueue\<close>.
\<close>

definition stopPlayback :: "AudioDecoder \<Rightarrow> AudioDecoder" where
  "stopPlayback s =
     (if \<not> playbackStarted s then s
      else
        (let s1 = s\<lparr>shouldStop := True, isDecoding := False\<rparr>;
             s2 = (if audioDevice s1 \<noteq> 0
                   then s1\<lparr>audioDevice := 0, calls := calls s1 @ [SDL_CloseAudioDevice]\<rparr>
                   else s1);
             s3 = clearBuffer (clearQueue s2);
             s4 = s3\<lparr>playbackStarted := False, playbackPaused := False\<rparr>
         in setClock 0 s4))"

text \<open>
  \<^verbatim>\<open>AudioDecoder::seekToTime\<close>. \<open>seek_ret\<close> is the return code of \<^verbatim>\<open>av_seek_frame\<close>
  (its timestamp argument is computed from \<open>seconds\<close> in floating point and is recorded
  as \<open>seconds\<close>);
  \<open>others i\<close> is what the other threads do after the \<open>i\<close>-th step of the call (nothing is
  put after the last step, the resume, so that the result is the decoder as the caller
  finds it on return). The result is the returned flag and that decoder.
\<close>

definition AudioDecoder_seekToTime ::
  "real \<Rightarrow> int \<Rightarrow> (nat \<Rightarrow> env list) \<Rightarrow> AudioDecoder \<Rightarrow> bool \<times> AudioDecoder" where
  "AudioDecoder_seekToTime seconds seek_ret others s =
     (if \<not> formatContext s then (False, s)
      else
        (let wasPlaying = isPlaying s;
             s1 = interfere (others 1) (if wasPlaying then pausePlayback s else s);
             s2 = interfere (others 2) (s1\<lparr>calls := calls s1 @ [av_seek_frame seconds]\<rparr>)
         in if seek_ret < 0 then (False, s2)
            else
              (let s3 = interfere (others 3) (s2\<lparr>calls := calls s2 @ [avcodec_flush_buffers]\<rparr>);
                   s4 = interfere (others 4) (clearQueue s3);
                   s5 = interfere (others 5) (clearBuffer s4);
                   s6 = interfere (others 6) (setClock seconds s5);
                   s7 = (if wasPlaying then resumePlayback s6 else s6)
               in (True, s7))))"

section \<open>The decode thread\<close>

text \<open>
  \<^verbatim>\<open>decodingLoop\<close> runs beside the output callback and the control thread, so it is a
  machine with one step per test or critical section. The places of the decode thread:
  the \<^verbatim>\<open>while\<close> test, the queue-size test under the lock, the wait on the condition
  variable, \<^verbatim>\<open>if (shouldStop) break\<close>, the head of \<^verbatim>\<open>decodeNextFrame\<close>, the receive loop
  (with the codec's remaining answers for the packet in hand), the end of the thread, and
  the end of the thread by an exception that nothing catches.
\<close>

datatype worker_pc =
  LoopTest
  | QueueCheck
  | Waiting
  | StopCheck
  | ReadPacket
  | Drain "(int \<times> AVFrame) list"
  | Finished
  | Crashed

text \<open>
  The decoder object, the place of the decode thread, and what the file still holds
  (\<^verbatim>\<open>av_read_frame\<close> reports the end of the file when nothing is left).
\<close>

record system =
  dec :: AudioDecoder
  pc :: worker_pc
  input :: "AVPacket list"

definition worker_step :: "system \<Rightarrow> system" where
  "worker_step sy =
     (case pc sy of
        LoopTest \<Rightarrow>
          (if isDecoding (dec sy) \<and> \<not> shouldStop (dec sy)
           then sy\<lparr>pc := QueueCheck\<rparr> else sy\<lparr>pc := Finished\<rparr>)
      | QueueCheck \<Rightarrow>
          (if length (audioFrameQueue (dec sy)) > 10
           then sy\<lparr>pc := Waiting\<rparr> else sy\<lparr>pc := StopCheck\<rparr>)
      | Waiting \<Rightarrow>
          (if length (audioFrameQueue (dec sy)) \<le> 5 \<or> shouldStop (dec sy)
           then sy\<lparr>pc := StopCheck\<rparr> else sy)
      | StopCheck \<Rightarrow>
          (if shouldStop (dec sy) then sy\<lparr>pc := Finished\<rparr> else sy\<lparr>pc := ReadPacket\<rparr>)
      | ReadPacket \<Rightarrow>
          (case input sy of
             [] \<Rightarrow> sy\<lparr>pc := Finished\<rparr>
           | packet # rest \<Rightarrow>
               (if read_ret packet < 0 then sy\<lparr>input := rest, pc := Finished\<rparr>
                else if stream_index packet \<noteq> audioStreamIndex (dec sy)
                then sy\<lparr>input := rest, pc := LoopTest\<rparr>
                else if send_ret packet < 0 then sy\<lparr>input := rest, pc := Finished\<rparr>
                else sy\<lparr>input := rest, pc := Drain (receives packet)\<rparr>))
      | Drain answers \<Rightarrow>
          (case answers of
             [] \<Rightarrow> sy\<lparr>pc := LoopTest\<rparr>
           | (ret, frame) # rest \<Rightarrow>
               (if ret = 0
                then (case pushFrame frame (dec sy) of
                        Inl e \<Rightarrow> sy\<lparr>pc := Crashed\<rparr>
                      | Inr s1 \<Rightarrow> sy\<lparr>dec := s1, pc := Drain rest\<rparr>)
                else sy\<lparr>pc := LoopTest\<rparr>))
      | Finished \<Rightarrow> sy
      | Crashed \<Rightarrow> sy)"

text \<open>
  What can happen next: a step of the decode thread; the callback taking the front frame
  (the critical section of \<^verbatim>\<open>fillAudioBuffer\<close>); the control thread raising the stop
  signal (the first two assignments of \<^verbatim>\<open>stopPlayback\<close>); the control thread clearing the
  queue (\<^verbatim>\<open>clearQueue\<close> in \<^verbatim>\<open>seekToTime\<close>).
\<close>

datatype action = Worker | ConsumerPop | SignalStop | ClearQueue

fun step :: "action \<Rightarrow> system \<Rightarrow> system" where
  "step Worker sy = worker_step sy"
| "step ConsumerPop sy = sy\<lparr>dec := popFrame (dec sy)\<rparr>"
| "step SignalStop sy = sy\<lparr>dec := (dec sy)\<lparr>shouldStop := True, isDecoding := False\<rparr>\<rparr>"
| "step ClearQueue sy = sy\<lparr>dec := clearQueue (dec sy)\<rparr>"

text \<open>An interleaving is a list of actions, run from left to right.\<close>

fun run :: "action list \<Rightarrow> system \<Rightarrow> system" where
  "run [] sy = sy"
| "run (a # as) sy = run as (step a sy)"

text \<open>The thread as \<^verbatim>\<open>startPlayback\<close> creates it, at the top of its loop.\<close>

definition spawn :: "AudioDecoder \<Rightarrow> AVPacket list \<Rightarrow> system" where
  "spawn s packets = \<lparr>dec = s, pc = LoopTest, input = packets\<rparr>"

section \<open>The video decoder and the player\<close>

text \<open>
  The fields of \<^verbatim>\<open>class VideoDecoder\<close> that seeking and the clock use. \<^verbatim>\<open>frame\<close> is
  \<open>None\<close> for a null pointer and otherwise holds \<^verbatim>\<open>frame->pts\<close>, the timestamp of the
  frame decoded last.
\<close>

record VideoDecoder =
  isOpen :: bool
  endOfStream :: bool
  frame :: "int option"
  timeBase :: real
  videoStreamIndex :: int
  video_calls :: "event list"

definition VideoDecoder_isFileOpen :: "VideoDecoder \<Rightarrow> bool" where
  "VideoDecoder_isFileOpen v = isOpen v"

definition VideoDecoder_getCurrentTime :: "VideoDecoder \<Rightarrow> real" where
  "VideoDecoder_getCurrentTime v =
     (case frame v of
        None \<Rightarrow> 0
      | Some p \<Rightarrow> if \<not> isOpen v then 0 else real_of_int p * timeBase v)"

text \<open>\<^verbatim>\<open>VideoDecoder::seekToTime\<close>; \<open>seek_ret\<close> is the return code of \<^verbatim>\<open>av_seek_frame\<close>.\<close>

definition VideoDecoder_seekToTime :: "real \<Rightarrow> int \<Rightarrow> VideoDecoder \<Rightarrow> bool \<times> VideoDecoder" where
  "VideoDecoder_seekToTime seconds seek_ret v =
     (if \<not> isOpen v then (False, v)
      else
        (let v1 = v\<lparr>video_calls := video_calls v @ [av_seek_frame seconds]\<rparr>
         in if seek_ret < 0 then (False, v1)
            else (True, v1\<lparr>video_calls := video_calls v1 @ [avcodec_flush_buffers],
                          endOfStream := False\<rparr>)))"

text \<open>
  A \<^verbatim>\<open>float\<close>: not a number, an infinity, or a finite value. \<open>float_less\<close> is the
  comparison \<^verbatim>\<open><\<close>, false whenever a side is not a number.
\<close>

datatype cfloat = NaN | NegInf | Fin real | PosInf

fun float_less :: "cfloat \<Rightarrow> cfloat \<Rightarrow> bool" where
  "float_less NaN y = False"
| "float_less x NaN = False"
| "float_less PosInf y = False"
| "float_less x NegInf = False"
| "float_less NegInf y = True"
| "float_less x PosInf = True"
| "float_less (Fin a) (Fin b) = (a < b)"

text \<open>The fields of \<^verbatim>\<open>class MediaPlayer\<close> behind the transport and volume commands.\<close>

record MediaPlayer =
  playing :: bool
  muted :: bool
  volume :: cfloat
  hasVideo :: bool
  hasAudio :: bool
  videoDecoder :: VideoDecoder
  audioDecoder :: AudioDecoder

text \<open>\<^verbatim>\<open>MediaPlayer::play\<close>; \<open>dev\<close> is the device id the audio decoder gets from SDL.\<close>

definition MediaPlayer_play :: "nat \<Rightarrow> MediaPlayer \<Rightarrow> MediaPlayer" where
  "MediaPlayer_play dev mp =
     (if (hasVideo mp \<or> hasAudio mp) \<and> \<not> playing mp
      then
        (let mp1 = (if hasAudio mp
                    then mp\<lparr>audioDecoder := snd (startPlayback dev (audioDecoder mp))\<rparr>
                    else mp)
         in mp1\<lparr>playing := True\<rparr>)
      else mp)"

definition MediaPlayer_pause :: "MediaPlayer \<Rightarrow> MediaPlayer" where
  "MediaPlayer_pause mp =
     (if (hasVideo mp \<or> hasAudio mp) \<and> playing mp
      then
        (let mp1 = (if hasAudio mp
                    then mp\<lparr>audioDecoder := pausePlayback (audioDecoder mp)\<rparr>
                    else mp)
         in mp1\<lparr>playing := False\<rparr>)
      else mp)"

text \<open>
  \<^verbatim>\<open>MediaPlayer::stop\<close>; \<open>vret\<close> and \<open>aret\<close> are the return codes of \<^verbatim>\<open>av_seek_frame\<close> for
  the video and the audio seek to 0. The audio seek runs after \<^verbatim>\<open>stopPlayback\<close> has joined
  the decode thread and closed the device, or with playback never started: no other thread
  acts on the decoder.
\<close>

definition MediaPlayer_stop :: "int \<Rightarrow> int \<Rightarrow> MediaPlayer \<Rightarrow> MediaPlayer" where
  "MediaPlayer_stop vret aret mp =
     (if hasVideo mp \<or> hasAudio mp
      then
        (let mp1 = (if hasAudio mp
                    then mp\<lparr>audioDecoder := stopPlayback (audioDecoder mp)\<rparr>
                    else mp);
             mp2 = mp1\<lparr>playing := False\<rparr>;
             mp3 = (if hasVideo mp2 \<and> VideoDecoder_isFileOpen (videoDecoder mp2)
                    then mp2\<lparr>videoDecoder := snd (VideoDecoder_seekToTime 0 vret (videoDecoder mp2))\<rparr>
                    else mp2);
             mp4 = (if hasAudio mp3 \<and> AudioDecoder_isFileOpen (audioDecoder mp3)
                    then mp3\<lparr>audioDecoder :=
                           snd (AudioDecoder_seekToTime 0 aret quiet (audioDecoder mp3))\<rparr>
                    else mp3)
         in mp4)
      else mp)"

definition MediaPlayer_getCurrentTime :: "MediaPlayer \<Rightarrow> real" where
  "MediaPlayer_getCurrentTime mp =
     (if hasVideo mp then VideoDecoder_getCurrentTime (videoDecoder mp)
      else if hasAudio mp then AudioDecoder_getCurrentTime (audioDecoder mp)
      else 0)"

text \<open>\<^verbatim>\<open>std::clamp(v, lo, hi)\<close>.\<close>

definition std_clamp :: "cfloat \<Rightarrow> cfloat \<Rightarrow> cfloat \<Rightarrow> cfloat" where
  "std_clamp v lo hi = (if float_less v lo then lo else if float_less hi v then hi else v)"

definition setVolume :: "cfloat \<Rightarrow> MediaPlayer \<Rightarrow> MediaPlayer" where
  "setVolume newVolume mp = mp\<lparr>volume := std_clamp newVolume (Fin 0) (Fin 1)\<rparr>"

definition getVolume :: "MediaPlayer \<Rightarrow> cfloat" where
  "getVolume mp = volume mp"

section \<open>Auxiliary notions for the properties\<close>

text \<open>
  The frames that the receive loop queues for the answers of one packet: those of the
  leading answers with code 0 whose conversion succeeds. \<open>throws\<close> tells whether one of
  those leading answers makes the conversion throw.
\<close>

fun converted :: "real \<Rightarrow> (int \<times> AVFrame) list \<Rightarrow> AudioFrame list" where
  "converted tb [] = []"
| "converted tb ((ret, f) # rest) =
     (if ret = 0
      then (case convertAudioFrame tb f of
              Inr (Some audioFrame) \<Rightarrow> audioFrame # converted tb rest
            | _ \<Rightarrow> converted tb rest)
      else [])"

fun throws :: "real \<Rightarrow> (int \<times> AVFrame) list \<Rightarrow> bool" where
  "throws tb [] = False"
| "throws tb ((ret, f) # rest) =
     (if ret = 0
      then (case convertAudioFrame tb f of Inl e \<Rightarrow> True | Inr r \<Rightarrow> throws tb rest)
      else False)"

text \<open>The number of leading answers with code 0.\<close>

definition accepted :: "(int \<times> AVFrame) list \<Rightarrow> nat" where
  "accepted answers = length (takeWhile (\<lambda>a. fst a = 0) answers)"

text \<open>The frames that the decode thread queues in the course of what the other threads do.\<close>

fun pushed :: "real \<Rightarrow> env list \<Rightarrow> AudioFrame list" where
  "pushed tb [] = []"
| "pushed tb (Push f # es) =
     (case convertAudioFrame tb f of
        Inr (Some audioFrame) \<Rightarrow> audioFrame # pushed tb es
      | _ \<Rightarrow> pushed tb es)"
| "pushed tb (Callback stream # es) = pushed tb es"

text \<open>The number of blocks that one call of the callback takes from the queue.\<close>

definition taken :: "byte list \<Rightarrow> AudioDecoder \<Rightarrow> nat" where
  "taken stream s =
     length (audioFrameQueue s) - length (audioFrameQueue (snd (fillAudioBuffer stream s)))"




text \<open>
  The invariant behind the bound on the queue, for packets that yield at most \<open>K\<close> frames:
  past the queue-size test the queue holds at most 10 frames unless the stop signal is up,
  and inside the receive loop the queue and the frames still to come stay within
  \<open>10 + K\<close>.
\<close>

definition watermark_inv :: "nat \<Rightarrow> system \<Rightarrow> bool" where
  "watermark_inv K sy =
     (let n = length (audioFrameQueue (dec sy)) in
      (case pc sy of
         StopCheck \<Rightarrow> (n \<le> 10 \<or> shouldStop (dec sy)) \<and> n \<le> 10 + K
       | ReadPacket \<Rightarrow> n \<le> 10
       | Drain answers \<Rightarrow> n + length answers \<le> 10 + K
       | _ \<Rightarrow> n \<le> 10 + K) \<and>
      list_all (\<lambda>packet. length (receives packet) \<le> K) (input sy))"

text \<open>A volume in the closed interval from 0 to 1.\<close>

fun in_unit :: "cfloat \<Rightarrow> bool" where
  "in_unit (Fin r) = (0 \<le> r \<and> r \<le> 1)"
| "in_unit x = False"

text \<open>
  A decoder as \<^verbatim>\<open>openFile\<close> leaves it for a file whose audio stream has index 0 and a
  time base of one second, and the same decoder once playback has started on device 1.
\<close>

definition opened :: AudioDecoder where
  "opened =
     \<lparr>formatContext = True, audioStreamIndex = 0, time_base = 1, audioDevice = 0,
      isDecoding = False, playbackStarted = False, playbackPaused = False,
      shouldStop = False, audioFrameQueue = [], currentTime = 0, audioBuffer = [],
      bufferPosition = 0, calls = []\<rparr>"

definition started :: AudioDecoder where
  "started = snd (startPlayback 1 opened)"

text \<open>
  Sample answers of the codec: a frame that converts to two stereo samples; a frame that
  converts to no sample at all; a packet with one good frame; a packet that
  \<^verbatim>\<open>avcodec_send_packet\<close> rejects with \<^verbatim>\<open>AVERROR_INVALIDDATA\<close>; a packet whose answers
  are a frame on which \<^verbatim>\<open>swr_convert\<close> fails, a good frame, the code
  \<^verbatim>\<open>AVERROR_INVALIDDATA\<close> and one more frame; a packet that decodes to twelve frames.
\<close>

definition good_frame :: AVFrame where
  "good_frame =
     \<lparr>outputSamples = 2, convertedSamples = 2,
      convertedBytes = [1, 2, 3, 4, 5, 6, 7, 8], actualSize = 8, frame_pts = 0\<rparr>"


definition good_packet :: AVPacket where
  "good_packet = \<lparr>read_ret = 0, stream_index = 0, send_ret = 0, receives = [(0, good_frame)]\<rparr>"



definition burst_packet :: AVPacket where
  "burst_packet =
     \<lparr>read_ret = 0, stream_index = 0, send_ret = 0, receives = replicate 12 (0, good_frame)\<rparr>"

text \<open>
  Sample players: a video decoder whose last decoded frame has timestamp 75 at 25 ticks per
  second; a player with an audio-only file open; the same player in the middle of the
  file, a block stamped 5 half played and a block stamped 6 queued; a video-only player;
  a player in the middle of a file with both streams, the audio clock at 5 seconds.
\<close>

definition video_seen :: VideoDecoder where
  "video_seen =
     \<lparr>isOpen = True, endOfStream = False, frame = Some 75, timeBase = 1 / 25,
      videoStreamIndex = 0, video_calls = []\<rparr>"

definition audio_only :: MediaPlayer where
  "audio_only =
     \<lparr>playing = False, muted = False, volume = Fin 1, hasVideo = False, hasAudio = True,
      videoDecoder = video_seen\<lparr>isOpen := False, frame := None\<rparr>, audioDecoder = opened\<rparr>"

definition midway :: MediaPlayer where
  "midway =
     (MediaPlayer_play 1 audio_only)
       \<lparr>audioDecoder :=
          interfere
            [Push (good_frame\<lparr>frame_pts := 5\<rparr>), Push (good_frame\<lparr>frame_pts := 6\<rparr>),
             Callback [0, 0, 0, 0]]
            (audioDecoder (MediaPlayer_play 1 audio_only))\<rparr>"

definition video_only :: MediaPlayer where
  "video_only =
     \<lparr>playing = True, muted = False, volume = Fin 1, hasVideo = True, hasAudio = False,
      videoDecoder = video_seen, audioDecoder = opened\<lparr>formatContext := False\<rparr>\<rparr>"

definition movie :: MediaPlayer where
  "movie =
     \<lparr>playing = True, muted = False, volume = Fin 1, hasVideo = True, hasAudio = True,
      videoDecoder = video_seen, audioDecoder = started\<lparr>currentTime := 5\<rparr>\<rparr>"

section \<open>The output callback: silence on pause and on under-run\<close>

lemma started_fields:
  "started =
     \<lparr>formatContext = True, audioStreamIndex = 0, time_base = 1, audioDevice = 1,
      isDecoding = True, playbackStarted = True, playbackPaused = False,
      shouldStop = False, audioFrameQueue = [], currentTime = 0, audioBuffer = [],
      bufferPosition = 0,
      calls = [queue_cleared, buffer_cleared, SDL_PauseAudioDevice False]\<rparr>"
  by (simp add: started_def startPlayback_def opened_def clearQueue_def clearBuffer_def Let_def)

lemma pending_popFrame:
  "bufferPosition s \<ge> length (audioBuffer s) \<Longrightarrow> pending (popFrame s) = pending s"
  by (auto simp: pending_def popFrame_def setClock_def split: list.splits)

lemma fill_loop_unfold:
  assumes "n > 0" and "\<not> (bufferPosition s \<ge> length (audioBuffer s) \<and> audioFrameQueue s = [])"
    and "s1 = (if bufferPosition s \<ge> length (audioBuffer s) then popFrame s else s)"
    and "k = min n (length (audioBuffer s1) - bufferPosition s1)"
  shows "fill_loop n p st s =
         fill_loop (n - k) (p + k) (memcpy st p (audioBuffer s1) (bufferPosition s1) k)
           (s1\<lparr>bufferPosition := bufferPosition s1 + k\<rparr>)"
  using assms fill_loop.simps[of n p st s] by (auto simp: Let_def)

lemma fill_loop_stop:
  "n = 0 \<or> (bufferPosition s \<ge> length (audioBuffer s) \<and> audioFrameQueue s = []) \<Longrightarrow>
   fill_loop n p st s = (st, s)"
  using fill_loop.simps[of n p st s] by auto

lemma fill_loop_stream:
  "p + n = length st \<Longrightarrow>
   fst (fill_loop n p st s) = take p st @ take n (pending s) @ drop (p + min n (length (pending s))) st"
proof (induction n p st s rule: fill_loop.induct)
  case (1 n p st s)
  show ?case
  proof (cases "n = 0 \<or> (bufferPosition s \<ge> length (audioBuffer s) \<and> audioFrameQueue s = [])")
    case True
    then show ?thesis using 1(2) by (auto simp: fill_loop_stop pending_def)
  next
    case False
    then have n: "n > 0" and ne: "\<not> (bufferPosition s \<ge> length (audioBuffer s) \<and> audioFrameQueue s = [])"
      by auto
    define s1 where "s1 = (if bufferPosition s \<ge> length (audioBuffer s) then popFrame s else s)"
    define k where "k = min n (length (audioBuffer s1) - bufferPosition s1)"
    define st1 where "st1 = memcpy st p (audioBuffer s1) (bufferPosition s1) k"
    define s2 where "s2 = s1\<lparr>bufferPosition := bufferPosition s1 + k\<rparr>"
    have unf: "fill_loop n p st s = fill_loop (n - k) (p + k) st1 s2"
      unfolding st1_def s2_def by (rule fill_loop_unfold[OF n ne s1_def k_def])
    have ps1: "pending s1 = pending s"
      by (simp add: s1_def pending_popFrame)
    have kn: "k \<le> n" by (simp add: k_def)
    have cp: "take k (drop (bufferPosition s1) (audioBuffer s1)) = take k (pending s)"
      unfolding ps1[symmetric] by (simp add: pending_def k_def)
    have kp: "k \<le> length (pending s)"
      unfolding ps1[symmetric] by (simp add: pending_def k_def)
    have st1: "st1 = take p st @ take k (pending s) @ drop (p + k) st"
      by (simp add: st1_def memcpy_def cp)
    have len1: "p + k + (n - k) = length st1"
      using 1(2) kn kp by (simp add: st1)
    have ps2: "pending s2 = drop k (pending s)"
      unfolding ps1[symmetric] by (simp add: s2_def pending_def k_def add.commute)
    have IH: "fst (fill_loop (n - k) (p + k) st1 s2) =
      take (p + k) st1 @ take (n - k) (pending s2) @ drop (p + k + min (n - k) (length (pending s2))) st1"
      unfolding s2_def
      by (rule 1(1)[OF n ne s1_def refl k_def st1_def len1])
    have tk: "take (p + k) st1 = take p st @ take k (pending s)"
      using 1(2) kn kp by (simp add: st1)
    have dr: "drop (p + k + min (n - k) (length (pending s2))) st1 = drop (p + min n (length (pending s))) st"
    proof -
      define m where "m = min (n - k) (length (pending s2))"
      have la: "length (take p st @ take k (pending s)) = p + k"
        using 1(2) kp by simp
      have e: "p + k + m = p + min n (length (pending s))"
        using kn kp unfolding m_def ps2 min_def length_drop by auto
      have "drop (p + k + m) st1 = drop m (drop (p + k) st)"
        unfolding st1 using la by (metis append.assoc append_eq_conv_conj drop_drop add.commute)
      also have "\<dots> = drop (p + k + m) st"
        by (simp add: add.commute)
      finally have "drop (p + k + m) st1 = drop (p + k + m) st" .
      then show ?thesis unfolding e[symmetric] m_def .
    qed
    have tt: "take k (pending s) @ take (n - k) (drop k (pending s)) = take n (pending s)"
      using kn by (metis le_add_diff_inverse take_add)
    show ?thesis
    proof -
      have "fst (fill_loop n p st s) =
            (take p st @ take k (pending s)) @ take (n - k) (pending s2) @
            drop (p + min n (length (pending s))) st"
        by (simp only: unf IH tk dr)
      also have "\<dots> = take p st @ (take k (pending s) @ take (n - k) (drop k (pending s))) @
            drop (p + min n (length (pending s))) st"
        by (simp only: ps2 append_assoc)
      finally show ?thesis by (simp only: tt)
    qed
  qed
qed


lemma fill_loop_pending:
  "pending (snd (fill_loop n p st s)) = drop n (pending s)"
proof (induction n p st s rule: fill_loop.induct)
  case (1 n p st s)
  show ?case
  proof (cases "n = 0 \<or> (bufferPosition s \<ge> length (audioBuffer s) \<and> audioFrameQueue s = [])")
    case True
    then show ?thesis by (auto simp: fill_loop_stop pending_def)
  next
    case False
    then have n: "n > 0" and ne: "\<not> (bufferPosition s \<ge> length (audioBuffer s) \<and> audioFrameQueue s = [])"
      by auto
    define s1 where "s1 = (if bufferPosition s \<ge> length (audioBuffer s) then popFrame s else s)"
    define k where "k = min n (length (audioBuffer s1) - bufferPosition s1)"
    define st1 where "st1 = memcpy st p (audioBuffer s1) (bufferPosition s1) k"
    define s2 where "s2 = s1\<lparr>bufferPosition := bufferPosition s1 + k\<rparr>"
    have unf: "fill_loop n p st s = fill_loop (n - k) (p + k) st1 s2"
      unfolding st1_def s2_def by (rule fill_loop_unfold[OF n ne s1_def k_def])
    have ps1: "pending s1 = pending s"
      by (simp add: s1_def pending_popFrame)
    have kn: "k \<le> n" by (simp add: k_def)
    have ps2: "pending s2 = drop k (pending s)"
      unfolding ps1[symmetric] by (simp add: s2_def pending_def k_def add.commute)
    have IH: "pending (snd (fill_loop (n - k) (p + k) st1 s2)) = drop (n - k) (pending s2)"
      unfolding s2_def by (rule 1[OF n ne s1_def refl k_def st1_def])
    show ?thesis
      unfolding unf IH ps2 using kn by simp
  qed
qed


text \<open>
  Claim C3. For every call of the output callback on a buffer of \<open>len\<close> bytes: the result
  has \<open>len\<close> bytes; when playback is paused every byte is zero and the decoder (queue,
  current block, clock) is as before; otherwise the buffer holds the first \<open>len\<close> bytes
  that were ready to play, and when fewer than \<open>len\<close> were ready (the queue ran empty)
  every remaining byte is zero. The callback has no error result.
\<close>

theorem fillAudioBuffer_silence:
  "length (fst (fillAudioBuffer stream s)) = length stream \<and>
   (if playbackPaused s
    then fst (fillAudioBuffer stream s) = replicate (length stream) 0 \<and>
         snd (fillAudioBuffer stream s) = s
    else fst (fillAudioBuffer stream s) =
           take (length stream) (pending s) @
           replicate (length stream - length (pending s)) 0 \<and>
         pending (snd (fillAudioBuffer stream s)) = drop (length stream) (pending s))"
proof (cases "playbackPaused s")
  case True
  then show ?thesis by (simp add: fillAudioBuffer_def)
next
  case False
  define len where "len = length stream"
  define cleared where "cleared = replicate len (0 :: byte)"
  have run: "fillAudioBuffer stream s = fill_loop len 0 cleared s"
    using False by (simp add: fillAudioBuffer_def len_def cleared_def Let_def)
  have "fst (fill_loop len 0 cleared s) =
        take 0 cleared @ take len (pending s) @ drop (0 + min len (length (pending s))) cleared"
    by (rule fill_loop_stream) (simp add: cleared_def)
  then have out: "fst (fill_loop len 0 cleared s) =
        take len (pending s) @ replicate (len - length (pending s)) 0"
    by (simp add: cleared_def min_def)
  have rest: "pending (snd (fill_loop len 0 cleared s)) = drop len (pending s)"
    by (rule fill_loop_pending)
  have "length (take len (pending s) @ replicate (len - length (pending s)) (0 :: byte)) = len"
    by simp
  then show ?thesis
    using False out rest unfolding run len_def[symmetric] by simp
qed

theorem fillAudioBuffer_silence_witness:
  "fst (fillAudioBuffer [9, 9, 9, 9, 9, 9]
     (started\<lparr>audioBuffer := [1, 2, 3], bufferPosition := 1,
        audioFrameQueue := [\<lparr>data = [4, 5], pts = 1, timestamp = 1\<rparr>]\<rparr>)) =
   [2, 3, 4, 5, 0, 0] \<and>
   fillAudioBuffer [9, 9, 9]
     (started\<lparr>playbackPaused := True, audioBuffer := [1, 2, 3], bufferPosition := 1\<rparr>) =
   ([0, 0, 0], started\<lparr>playbackPaused := True, audioBuffer := [1, 2, 3], bufferPosition := 1\<rparr>)"
proof -
  let ?s = "started\<lparr>audioBuffer := [1, 2, 3], bufferPosition := 1,
        audioFrameQueue := [\<lparr>data = [4, 5], pts = 1, timestamp = 1\<rparr>]\<rparr>"
  let ?p = "started\<lparr>playbackPaused := True, audioBuffer := [1, 2, 3], bufferPosition := 1\<rparr>"
  have run: "\<not> playbackPaused ?s"
    by (simp add: started_fields)
  have a: "fst (fillAudioBuffer [9, 9, 9, 9, 9, 9] ?s) = [2, 3, 4, 5, 0, 0]"
    using fillAudioBuffer_silence [of "[9, 9, 9, 9, 9, 9]" ?s] run
    by (simp add: pending_def)
  have b: "fillAudioBuffer [9, 9, 9] ?p = ([0, 0, 0], ?p)"
    using fillAudioBuffer_silence [of "[9, 9, 9]" ?p]
    by (simp add: prod_eq_iff numeral_3_eq_3)
  show ?thesis using a b by blast
qed

section \<open>The playback clock\<close>

lemma popFrame_clock:
  "audioFrameQueue s = f # q \<Longrightarrow>
   currentTime (popFrame s) = timestamp f \<and> audioFrameQueue (popFrame s) = q"
  by (simp add: popFrame_def setClock_def)

lemma fill_loop_taken:
  "\<exists>k. k \<le> length (audioFrameQueue s) \<and>
       audioFrameQueue (snd (fill_loop n p st s)) = drop k (audioFrameQueue s) \<and>
       currentTime (snd (fill_loop n p st s)) =
         (if k = 0 then currentTime s else timestamp (audioFrameQueue s ! (k - 1)))"
proof (induction n p st s rule: fill_loop.induct)
  case (1 n p st s)
  show ?case
  proof (cases "n = 0 \<or> (bufferPosition s \<ge> length (audioBuffer s) \<and> audioFrameQueue s = [])")
    case True
    then have "fill_loop n p st s = (st, s)" by (rule fill_loop_stop)
    then show ?thesis by (intro exI [of _ 0]) simp
  next
    case False
    then have n: "n > 0" and ne: "\<not> (bufferPosition s \<ge> length (audioBuffer s) \<and> audioFrameQueue s = [])"
      by auto
    define s1 where "s1 = (if bufferPosition s \<ge> length (audioBuffer s) then popFrame s else s)"
    define k where "k = min n (length (audioBuffer s1) - bufferPosition s1)"
    define st1 where "st1 = memcpy st p (audioBuffer s1) (bufferPosition s1) k"
    define s2 where "s2 = s1\<lparr>bufferPosition := bufferPosition s1 + k\<rparr>"
    have unf: "fill_loop n p st s = fill_loop (n - k) (p + k) st1 s2"
      unfolding st1_def s2_def by (rule fill_loop_unfold[OF n ne s1_def k_def])
    have "\<exists>j. j \<le> length (audioFrameQueue s2) \<and>
       audioFrameQueue (snd (fill_loop (n - k) (p + k) st1 s2)) = drop j (audioFrameQueue s2) \<and>
       currentTime (snd (fill_loop (n - k) (p + k) st1 s2)) =
         (if j = 0 then currentTime s2 else timestamp (audioFrameQueue s2 ! (j - 1)))"
      unfolding s2_def by (rule 1[OF n ne s1_def refl k_def st1_def])
    then obtain j where j: "j \<le> length (audioFrameQueue s2)"
      and q: "audioFrameQueue (snd (fill_loop n p st s)) = drop j (audioFrameQueue s2)"
      and c: "currentTime (snd (fill_loop n p st s)) =
         (if j = 0 then currentTime s2 else timestamp (audioFrameQueue s2 ! (j - 1)))"
      unfolding unf by blast
    show ?thesis
    proof (cases "bufferPosition s \<ge> length (audioBuffer s)")
      case False
      then have "audioFrameQueue s2 = audioFrameQueue s" "currentTime s2 = currentTime s"
        by (simp_all add: s2_def s1_def)
      with j q c show ?thesis by (intro exI [of _ j]) simp
    next
      case True
      with ne obtain f rest where fq: "audioFrameQueue s = f # rest"
        by (cases "audioFrameQueue s") auto
      have "audioFrameQueue s2 = rest" "currentTime s2 = timestamp f"
        using True popFrame_clock [OF fq] by (simp_all add: s2_def s1_def)
      with j q c fq show ?thesis
        by (intro exI [of _ "Suc j"]) (auto simp: nth_Cons')
    qed
  qed
qed

lemma fillAudioBuffer_taken:
  "\<exists>k. k \<le> length (audioFrameQueue s) \<and>
       audioFrameQueue (snd (fillAudioBuffer stream s)) = drop k (audioFrameQueue s) \<and>
       currentTime (snd (fillAudioBuffer stream s)) =
         (if k = 0 then currentTime s else timestamp (audioFrameQueue s ! (k - 1)))"
proof (cases "playbackPaused s")
  case True
  then show ?thesis by (intro exI [of _ 0]) (simp add: fillAudioBuffer_def)
next
  case False
  then have "fillAudioBuffer stream s = fill_loop (length stream) 0 (replicate (length stream) 0) s"
    by (simp add: fillAudioBuffer_def Let_def)
  then show ?thesis using fill_loop_taken by simp
qed

lemma fill_loop_time_base:
  "time_base (snd (fill_loop n p st s)) = time_base s"
proof (induction n p st s rule: fill_loop.induct)
  case (1 n p st s)
  show ?case
  proof (cases "n = 0 \<or> (bufferPosition s \<ge> length (audioBuffer s) \<and> audioFrameQueue s = [])")
    case True
    then show ?thesis by (simp add: fill_loop_stop)
  next
    case False
    then have n: "n > 0" and ne: "\<not> (bufferPosition s \<ge> length (audioBuffer s) \<and> audioFrameQueue s = [])"
      by auto
    define s1 where "s1 = (if bufferPosition s \<ge> length (audioBuffer s) then popFrame s else s)"
    define k where "k = min n (length (audioBuffer s1) - bufferPosition s1)"
    have unf: "fill_loop n p st s =
        fill_loop (n - k) (p + k) (memcpy st p (audioBuffer s1) (bufferPosition s1) k)
          (s1\<lparr>bufferPosition := bufferPosition s1 + k\<rparr>)"
      by (rule fill_loop_unfold[OF n ne s1_def k_def])
    have "time_base s1 = time_base s"
      by (simp add: s1_def popFrame_def setClock_def split: list.splits)
    then show ?thesis
      unfolding unf using 1[OF n ne s1_def refl k_def refl] by simp
  qed
qed

lemma env_step_time_base:
  "time_base (env_step e s) = time_base s"
  by (cases e)
     (auto simp: pushFrame_def fillAudioBuffer_def Let_def fill_loop_time_base
        split: sum.splits option.splits)

lemma sorted_after_take:
  assumes "sorted (c # map timestamp (q @ r))" and "k \<le> length q" and "k \<noteq> 0"
  shows "c \<le> timestamp (q ! (k - 1)) \<and>
         sorted (timestamp (q ! (k - 1)) # map timestamp (drop k q @ r))"
proof -
  from assms have lt: "k - 1 < length q" by simp
  have split: "q = take (k - 1) q @ q ! (k - 1) # drop k q"
    using lt assms(3) by (metis Suc_pred' id_take_nth_drop neq0_conv)
  have "sorted (c # map timestamp (take (k - 1) q @ q ! (k - 1) # drop k q @ r))"
    using assms(1) split by (metis append.assoc append_Cons)
  then show ?thesis
    by (auto simp: sorted_append)
qed

lemma env_step_ordered:
  assumes "sorted (currentTime s # map timestamp (audioFrameQueue s @ pushed (time_base s) (e # es)))"
  shows "currentTime s \<le> currentTime (env_step e s) \<and>
         sorted (currentTime (env_step e s) #
                 map timestamp (audioFrameQueue (env_step e s) @ pushed (time_base s) es))"
proof (cases e)
  case (Push f)
  with assms show ?thesis
    by (auto simp: pushFrame_def split: sum.splits option.splits)
next
  case (Callback stream)
  show ?thesis
  proof (cases "audioDevice s \<noteq> 0")
    case False
    with assms Callback show ?thesis by simp
  next
    case True
    obtain k where k: "k \<le> length (audioFrameQueue s)"
      and q: "audioFrameQueue (snd (fillAudioBuffer stream s)) = drop k (audioFrameQueue s)"
      and c: "currentTime (snd (fillAudioBuffer stream s)) =
         (if k = 0 then currentTime s else timestamp (audioFrameQueue s ! (k - 1)))"
      using fillAudioBuffer_taken by blast
    have srt: "sorted (currentTime s # map timestamp (audioFrameQueue s @ pushed (time_base s) es))"
      using assms Callback by simp
    show ?thesis
    proof (cases "k = 0")
      case True
      with srt q c \<open>audioDevice s \<noteq> 0\<close> Callback show ?thesis by simp
    next
      case False
      from sorted_after_take [OF srt k False] q c False \<open>audioDevice s \<noteq> 0\<close> Callback
      show ?thesis by simp
    qed
  qed
qed

lemma interfere_ordered:
  "sorted (currentTime s # map timestamp (audioFrameQueue s @ pushed (time_base s) (es @ later))) \<Longrightarrow>
   currentTime s \<le> currentTime (interfere es s) \<and>
   time_base (interfere es s) = time_base s \<and>
   sorted (currentTime (interfere es s) #
           map timestamp (audioFrameQueue (interfere es s) @ pushed (time_base s) later))"
proof (induction es arbitrary: s)
  case Nil
  then show ?case by simp
next
  case (Cons e es)
  from env_step_ordered [of s e "es @ later"] Cons.prems
  have a: "currentTime s \<le> currentTime (env_step e s)"
    and b: "sorted (currentTime (env_step e s) #
         map timestamp (audioFrameQueue (env_step e s) @ pushed (time_base s) (es @ later)))"
    by simp_all
  have tb: "time_base (env_step e s) = time_base s" by (rule env_step_time_base)
  from Cons.IH [of "env_step e s"] b tb a show ?case by auto
qed

lemma interfere_append:
  "interfere (es @ later) s = interfere later (interfere es s)"
  by (induction es arbitrary: s) simp_all

text \<open>
  Claim C5, as the code has it. The callback sets the clock to the timestamp of the last
  block it takes from the queue in that call, and leaves the clock alone when it takes
  none. So during any stretch of playing in which the decode thread pushes blocks and the
  device calls back (no seek, no stop), a read of the clock is never below an earlier read
  provided the clock at the start and the timestamps of the blocks, queued ones first and
  then in the order they are pushed, are in non-decreasing order. The code does not check
  that order.
\<close>

theorem clock_monotone:
  "audioFrameQueue (snd (fillAudioBuffer stream s)) = drop (taken stream s) (audioFrameQueue s) \<and>
   AudioDecoder_getCurrentTime (snd (fillAudioBuffer stream s)) =
     (if taken stream s = 0 then AudioDecoder_getCurrentTime s
      else timestamp (audioFrameQueue s ! (taken stream s - 1))) \<and>
   (sorted (currentTime s #
            map timestamp (audioFrameQueue s @ pushed (time_base s) (earlier @ later))) \<longrightarrow>
    AudioDecoder_getCurrentTime s \<le> AudioDecoder_getCurrentTime (interfere earlier s) \<and>
    AudioDecoder_getCurrentTime (interfere earlier s) \<le>
      AudioDecoder_getCurrentTime (interfere (earlier @ later) s))"
proof -
  obtain k where k: "k \<le> length (audioFrameQueue s)"
    and q: "audioFrameQueue (snd (fillAudioBuffer stream s)) = drop k (audioFrameQueue s)"
    and c: "currentTime (snd (fillAudioBuffer stream s)) =
       (if k = 0 then currentTime s else timestamp (audioFrameQueue s ! (k - 1)))"
    using fillAudioBuffer_taken by blast
  have "taken stream s = k"
    using k q by (simp add: taken_def)
  then have first: "audioFrameQueue (snd (fillAudioBuffer stream s)) =
      drop (taken stream s) (audioFrameQueue s)"
    and second: "AudioDecoder_getCurrentTime (snd (fillAudioBuffer stream s)) =
     (if taken stream s = 0 then AudioDecoder_getCurrentTime s
      else timestamp (audioFrameQueue s ! (taken stream s - 1)))"
    using q c by (simp_all add: AudioDecoder_getCurrentTime_def)
  have third: "AudioDecoder_getCurrentTime s \<le> AudioDecoder_getCurrentTime (interfere earlier s) \<and>
    AudioDecoder_getCurrentTime (interfere earlier s) \<le>
      AudioDecoder_getCurrentTime (interfere (earlier @ later) s)"
    if srt: "sorted (currentTime s #
            map timestamp (audioFrameQueue s @ pushed (time_base s) (earlier @ later)))"
  proof -
    from interfere_ordered [OF srt]
    have a: "currentTime s \<le> currentTime (interfere earlier s)"
      and tb: "time_base (interfere earlier s) = time_base s"
      and b: "sorted (currentTime (interfere earlier s) #
           map timestamp (audioFrameQueue (interfere earlier s) @ pushed (time_base s) later))"
      by simp_all
    from interfere_ordered [of "interfere earlier s" later "[]"] b tb
    have "currentTime (interfere earlier s) \<le> currentTime (interfere later (interfere earlier s))"
      by simp
    with a show ?thesis
      by (simp add: AudioDecoder_getCurrentTime_def interfere_append)
  qed
  show ?thesis using first second third by blast
qed

theorem clock_monotone_witness:
  "AudioDecoder_getCurrentTime
     (snd (fillAudioBuffer [0, 0, 0, 0, 0, 0, 0, 0, 0, 0, 0, 0]
        (started\<lparr>currentTime := 1,
           audioFrameQueue := [\<lparr>data = [1, 2, 3, 4], pts = 2, timestamp = 2\<rparr>,
                               \<lparr>data = [5, 6, 7, 8], pts = 3, timestamp = 3\<rparr>,
                               \<lparr>data = [9, 9, 9, 9, 9, 9], pts = 4, timestamp = 4\<rparr>,
                               \<lparr>data = [9, 9], pts = 5, timestamp = 5\<rparr>]\<rparr>))) = 4 \<and>
   AudioDecoder_getCurrentTime
     (interfere [Push (good_frame\<lparr>frame_pts := 2\<rparr>), Callback [0, 0, 0, 0]]
        (started\<lparr>currentTime := 1\<rparr>)) \<le>
   AudioDecoder_getCurrentTime
     (interfere ([Push (good_frame\<lparr>frame_pts := 2\<rparr>), Callback [0, 0, 0, 0]] @
                 [Push (good_frame\<lparr>frame_pts := 3\<rparr>), Callback [0, 0, 0, 0, 0, 0, 0, 0]])
        (started\<lparr>currentTime := 1\<rparr>))"
proof -
  let ?s = "started\<lparr>currentTime := 1,
           audioFrameQueue := [\<lparr>data = [1, 2, 3, 4], pts = 2, timestamp = 2\<rparr>,
                               \<lparr>data = [5, 6, 7, 8], pts = 3, timestamp = 3\<rparr>,
                               \<lparr>data = [9, 9, 9, 9, 9, 9], pts = 4, timestamp = 4\<rparr>,
                               \<lparr>data = [9, 9], pts = 5, timestamp = 5\<rparr>]\<rparr>"
  let ?stream = "[0, 0, 0, 0, 0, 0, 0, 0, 0, 0, 0, 0] :: byte list"
  let ?t = "started\<lparr>currentTime := 1\<rparr>"
  let ?e1 = "[Push (good_frame\<lparr>frame_pts := 2\<rparr>), Callback [0, 0, 0, 0]]"
  let ?e2 = "[Push (good_frame\<lparr>frame_pts := 3\<rparr>), Callback [0, 0, 0, 0, 0, 0, 0, 0]]"
  have n: "taken ?stream ?s = 3"
    by code_simp
  have a: "AudioDecoder_getCurrentTime (snd (fillAudioBuffer ?stream ?s)) = 4"
    using clock_monotone [of ?stream ?s] n by simp
  have srt: "sorted (currentTime ?t #
      map timestamp (audioFrameQueue ?t @ pushed (time_base ?t) (?e1 @ ?e2)))"
    by (simp add: started_fields good_frame_def convertAudioFrame_def resize_def av_samples_get_buffer_size_def)
  have b: "AudioDecoder_getCurrentTime (interfere ?e1 ?t) \<le>
      AudioDecoder_getCurrentTime (interfere (?e1 @ ?e2) ?t)"
    using clock_monotone [of _ ?t ?e1 ?e2] srt by blast
  show ?thesis using a b by (rule conjI)
qed

text \<open>
  Claim C5 as stated fails. After a successful seek to 7 seconds the clock reads 7; the
  decoder resumes at the key point before the target and the first block it delivers is
  stamped 6; the next callback, with no seek or stop in between, sets the clock back to 6.
  Likewise, a frame without a timestamp (\<^verbatim>\<open>AV_NOPTS_VALUE\<close>) after a frame stamped 5
  takes the clock far below 5.
\<close>

theorem clock_counterexample:
  "AudioDecoder_getCurrentTime (snd (AudioDecoder_seekToTime 7 0 quiet started)) = 7 \<and>
   AudioDecoder_getCurrentTime
     (interfere [Push (good_frame\<lparr>frame_pts := 6\<rparr>), Callback [0, 0, 0, 0]]
        (snd (AudioDecoder_seekToTime 7 0 quiet started))) = 6 \<and>
   AudioDecoder_getCurrentTime
     (interfere [Push (good_frame\<lparr>frame_pts := 5\<rparr>), Callback [0, 0, 0, 0]] started) = 5 \<and>
   AudioDecoder_getCurrentTime
     (interfere [Push (good_frame\<lparr>frame_pts := 5\<rparr>), Callback [0, 0, 0, 0],
                 Push (good_frame\<lparr>frame_pts := - 9223372036854775808\<rparr>),
                 Callback [0, 0, 0, 0, 0, 0, 0, 0, 0, 0, 0, 0]] started) < 5"
  by code_simp

section \<open>The decode thread: when it ends and how far the queue grows\<close>

lemma pushFrame_queue:
  assumes "pushFrame f s = Inr s1"
  shows "length (audioFrameQueue s1) \<le> Suc (length (audioFrameQueue s))"
    and "shouldStop s1 = shouldStop s"
    and "isDecoding s1 = isDecoding s"
    and "audioStreamIndex s1 = audioStreamIndex s"
    and "time_base s1 = time_base s"
  using assms by (auto simp: pushFrame_def split: sum.splits option.splits)

lemma popFrame_queue:
  "length (audioFrameQueue (popFrame s)) \<le> length (audioFrameQueue s)"
  "shouldStop (popFrame s) = shouldStop s"
  "isDecoding (popFrame s) = isDecoding s"
  "audioStreamIndex (popFrame s) = audioStreamIndex s"
  by (simp_all add: popFrame_def setClock_def split: list.splits)





lemma accepted_simps:
  "accepted [] = 0"
  "accepted ((ret, f) # rest) = (if ret = 0 then Suc (accepted rest) else 0)"
  by (simp_all add: accepted_def)

lemma drain_steps:
  assumes "pc sy = Drain answers" and "\<not> throws (time_base (dec sy)) answers"
  shows "run (replicate (Suc (accepted answers)) Worker) sy =
         sy\<lparr>dec := (dec sy)\<lparr>audioFrameQueue :=
                  audioFrameQueue (dec sy) @ converted (time_base (dec sy)) answers\<rparr>,
            pc := LoopTest\<rparr>"
  using assms
proof (induction answers arbitrary: sy)
  case Nil
  then show ?case by (simp add: accepted_simps worker_step_def)
next
  case (Cons a rest)
  obtain ret f where a: "a = (ret, f)" by (cases a)
  show ?case
  proof (cases "ret = 0")
    case False
    with Cons.prems a show ?thesis by (simp add: accepted_simps worker_step_def)
  next
    case True
    from Cons.prems(2) a True obtain r where r: "convertAudioFrame (time_base (dec sy)) f = Inr r"
      and nt: "\<not> throws (time_base (dec sy)) rest"
      by (cases "convertAudioFrame (time_base (dec sy)) f") auto
    define s1 where "s1 = (case r of None \<Rightarrow> dec sy
        | Some af \<Rightarrow> (dec sy)\<lparr>audioFrameQueue := audioFrameQueue (dec sy) @ [af]\<rparr>)"
    have push: "pushFrame f (dec sy) = Inr s1"
      using r by (simp add: pushFrame_def s1_def split: option.splits)
    have tb: "time_base s1 = time_base (dec sy)"
      by (simp add: s1_def split: option.splits)
    define sy1 where "sy1 = sy\<lparr>dec := s1, pc := Drain rest\<rparr>"
    have one: "worker_step sy = sy1"
      using Cons.prems(1) a True push by (simp add: worker_step_def sy1_def)
    have "run (replicate (Suc (accepted rest)) Worker) sy1 =
         sy1\<lparr>dec := (dec sy1)\<lparr>audioFrameQueue :=
                  audioFrameQueue (dec sy1) @ converted (time_base (dec sy1)) rest\<rparr>,
            pc := LoopTest\<rparr>"
      by (rule Cons.IH) (simp_all add: sy1_def tb nt)
    then show ?thesis
      using a True r one
      by (cases r) (simp_all add: accepted_simps sy1_def s1_def)
  qed
qed

lemma drain_value:
  "drain answers s =
     (if throws (time_base s) answers then Inl length_error
      else Inr (s\<lparr>audioFrameQueue := audioFrameQueue s @ converted (time_base s) answers\<rparr>))"
proof (induction answers arbitrary: s)
  case Nil
  then show ?case by simp
next
  case (Cons a rest)
  obtain ret f where a: "a = (ret, f)" by (cases a)
  show ?case
  proof (cases "convertAudioFrame (time_base s) f")
    case (Inl e)
    then show ?thesis
      using a by (cases e) (simp add: pushFrame_def)
  next
    case (Inr r)
    then show ?thesis
      using a Cons.IH by (cases r) (simp_all add: pushFrame_def)
  qed
qed

lemma crash_steps:
  assumes "pc sy = Drain answers" and "throws (time_base (dec sy)) answers"
  shows "\<exists>n. pc (run (replicate n Worker) sy) = Crashed"
  using assms
proof (induction answers arbitrary: sy)
  case Nil
  then show ?case by simp
next
  case (Cons a rest)
  obtain ret f where a: "a = (ret, f)" by (cases a)
  from Cons.prems(2) a have z: "ret = 0"
    by (cases "ret = 0") simp_all
  show ?case
  proof (cases "pushFrame f (dec sy)")
    case (Inl e)
    with Cons.prems(1) a z have "pc (run (replicate 1 Worker) sy) = Crashed"
      by (simp add: worker_step_def)
    then show ?thesis by blast
  next
    case (Inr s1)
    then have later: "throws (time_base (dec sy)) rest"
      using Cons.prems(2) a z by (auto simp: pushFrame_def split: sum.splits)
    define sy1 where "sy1 = sy\<lparr>dec := s1, pc := Drain rest\<rparr>"
    have one: "worker_step sy = sy1"
      using Cons.prems(1) a z Inr by (simp add: worker_step_def sy1_def)
    have "\<exists>n. pc (run (replicate n Worker) sy1) = Crashed"
      by (rule Cons.IH) (simp_all add: sy1_def later pushFrame_queue(5) [OF Inr])
    then obtain n where "pc (run (replicate n Worker) sy1) = Crashed" by blast
    then have "pc (run (replicate (Suc n) Worker) sy) = Crashed"
      using one by simp
    then show ?thesis by blast
  qed
qed

text \<open>
  The steps of the decode thread from the head of \<^verbatim>\<open>decodeNextFrame\<close> amount to that call:
  when it returns true the thread is back at the top of its loop with the decoder the call
  leaves, when it returns false the thread has finished, and when it throws the thread is
  ended by the exception.
\<close>

lemma worker_decodeNextFrame:
  assumes "pc sy = ReadPacket" and "input sy = packet # rest"
  shows "case decodeNextFrame packet (dec sy) of
           Inr (True, s1) \<Rightarrow>
             \<exists>n. run (replicate n Worker) sy = sy\<lparr>dec := s1, pc := LoopTest, input := rest\<rparr>
         | Inr (False, s1) \<Rightarrow>
             s1 = dec sy \<and> run (replicate 1 Worker) sy = sy\<lparr>input := rest, pc := Finished\<rparr>
         | Inl e \<Rightarrow> \<exists>n. pc (run (replicate n Worker) sy) = Crashed"
proof -
  consider (fail) "read_ret packet < 0"
    | (foreign) "0 \<le> read_ret packet" "stream_index packet \<noteq> audioStreamIndex (dec sy)"
    | (reject) "0 \<le> read_ret packet" "stream_index packet = audioStreamIndex (dec sy)"
        "send_ret packet < 0"
    | (decode) "0 \<le> read_ret packet" "stream_index packet = audioStreamIndex (dec sy)"
        "0 \<le> send_ret packet"
    by linarith
  then show ?thesis
  proof cases
    case fail
    with assms show ?thesis by (simp add: decodeNextFrame_def worker_step_def)
  next
    case foreign
    with assms have "run (replicate 1 Worker) sy = sy\<lparr>dec := dec sy, pc := LoopTest, input := rest\<rparr>"
      by (simp add: worker_step_def)
    then have "\<exists>n. run (replicate n Worker) sy = sy\<lparr>dec := dec sy, pc := LoopTest, input := rest\<rparr>"
      by (rule exI)
    with foreign show ?thesis
      by (simp add: decodeNextFrame_def)
  next
    case reject
    with assms show ?thesis by (simp add: decodeNextFrame_def worker_step_def)
  next
    case decode
    define sy1 where "sy1 = sy\<lparr>input := rest, pc := Drain (receives packet)\<rparr>"
    have one: "worker_step sy = sy1"
      using assms decode by (simp add: worker_step_def sy1_def)
    show ?thesis
    proof (cases "throws (time_base (dec sy)) (receives packet)")
      case True
      have "\<exists>n. pc (run (replicate n Worker) sy1) = Crashed"
        by (rule crash_steps [of _ "receives packet"]) (simp_all add: sy1_def True)
      then obtain n where "pc (run (replicate n Worker) sy1) = Crashed" by blast
      then have "pc (run (replicate (Suc n) Worker) sy) = Crashed"
        using one by simp
      then have "\<exists>n. pc (run (replicate n Worker) sy) = Crashed" by blast
      with True decode show ?thesis
        by (simp add: decodeNextFrame_def drain_value)
    next
      case False
      define s1 where "s1 = (dec sy)\<lparr>audioFrameQueue :=
          audioFrameQueue (dec sy) @ converted (time_base (dec sy)) (receives packet)\<rparr>"
      have "run (replicate (Suc (accepted (receives packet))) Worker) sy1 =
         sy1\<lparr>dec := (dec sy1)\<lparr>audioFrameQueue :=
                  audioFrameQueue (dec sy1) @ converted (time_base (dec sy1)) (receives packet)\<rparr>,
            pc := LoopTest\<rparr>"
        by (rule drain_steps) (simp_all add: sy1_def False)
      then have "run (replicate (Suc (Suc (accepted (receives packet)))) Worker) sy =
          sy\<lparr>dec := s1, pc := LoopTest, input := rest\<rparr>"
        using one by (simp add: sy1_def s1_def)
      then have "\<exists>n. run (replicate n Worker) sy = sy\<lparr>dec := s1, pc := LoopTest, input := rest\<rparr>"
        by blast
      with False decode show ?thesis
        by (simp add: decodeNextFrame_def drain_value s1_def)
    qed
  qed
qed




lemma watermark_worker:
  assumes "watermark_inv K sy"
  shows "watermark_inv K (worker_step sy)"
proof (cases "pc sy")
  case (Drain answers)
  show ?thesis
  proof (cases answers)
    case Nil
    with Drain assms show ?thesis by (simp add: watermark_inv_def worker_step_def Let_def)
  next
    case (Cons a rest)
    obtain ret f where a: "a = (ret, f)" by (cases a)
    show ?thesis
    proof (cases "pushFrame f (dec sy)")
      case (Inl e)
      with Drain Cons a assms show ?thesis
        by (simp add: watermark_inv_def worker_step_def Let_def)
    next
      case (Inr s1)
      then have "length (audioFrameQueue s1) \<le> Suc (length (audioFrameQueue (dec sy)))"
        by (simp add: pushFrame_queue)
      with Inr Drain Cons a assms show ?thesis
        by (simp add: watermark_inv_def worker_step_def Let_def)
    qed
  qed
next
  case ReadPacket
  with assms show ?thesis
    by (cases "input sy") (auto simp: watermark_inv_def worker_step_def Let_def)
qed (use assms in \<open>auto simp: watermark_inv_def worker_step_def Let_def\<close>)

lemma watermark_step:
  assumes "watermark_inv K sy"
  shows "watermark_inv K (step a sy)"
proof (cases a)
  case Worker
  then show ?thesis using assms by (simp add: watermark_worker)
next
  case ConsumerPop
  have le: "length (audioFrameQueue (popFrame (dec sy))) \<le> length (audioFrameQueue (dec sy))"
    by (rule popFrame_queue)
  show ?thesis
    using ConsumerPop assms le
    by (cases "pc sy"; simp add: watermark_inv_def Let_def popFrame_queue; linarith)
next
  case SignalStop
  with assms show ?thesis
    by (cases "pc sy") (auto simp: watermark_inv_def Let_def)
next
  case ClearQueue
  with assms show ?thesis
    by (cases "pc sy") (auto simp: watermark_inv_def Let_def clearQueue_def)
qed

lemma watermark_run:
  "watermark_inv K sy \<Longrightarrow> watermark_inv K (run sched sy)"
  by (induction sched arbitrary: sy) (simp_all add: watermark_step)

lemma watermark_bound:
  assumes "watermark_inv K sy"
  shows "length (audioFrameQueue (dec sy)) \<le> 10 + K"
    and "pc sy = ReadPacket \<Longrightarrow> length (audioFrameQueue (dec sy)) \<le> 10"
  using assms by (cases "pc sy"; simp add: watermark_inv_def Let_def)+


text \<open>
  Claim C2, as the code has it. The queue size is tested once per loop turn, before a packet
  is read. In every interleaving of decode-thread steps, pops, stop signals and queue
  clears, when no packet yields more than \<open>K\<close> frames and the queue starts with at most
  10 frames: the queue never holds more than \<open>10 + K\<close> frames; the decode thread is
  about to read a packet only while the queue holds at most 10 frames; at the size test
  with more than 10 frames queued it goes to wait; and while it waits it does nothing
  unless the queue is down to 5 frames or the stop signal is up.
\<close>

theorem queue_bounded:
  assumes "\<forall>packet \<in> set packets. length (receives packet) \<le> K"
    and "length (audioFrameQueue s) \<le> 10"
  shows "length (audioFrameQueue (dec (run sched (spawn s packets)))) \<le> 10 + K \<and>
         (pc (run sched (spawn s packets)) = ReadPacket \<longrightarrow>
            length (audioFrameQueue (dec (run sched (spawn s packets)))) \<le> 10) \<and>
         (pc (run sched (spawn s packets)) = QueueCheck \<and>
          10 < length (audioFrameQueue (dec (run sched (spawn s packets)))) \<longrightarrow>
            pc (step Worker (run sched (spawn s packets))) = Waiting) \<and>
         (pc (run sched (spawn s packets)) = Waiting \<and>
          5 < length (audioFrameQueue (dec (run sched (spawn s packets)))) \<and>
          \<not> shouldStop (dec (run sched (spawn s packets))) \<longrightarrow>
            step Worker (run sched (spawn s packets)) = run sched (spawn s packets))"
proof -
  have "watermark_inv K (spawn s packets)"
    using assms by (simp add: watermark_inv_def spawn_def list_all_iff)
  then have "watermark_inv K (run sched (spawn s packets))"
    by (rule watermark_run)
  then have bound: "length (audioFrameQueue (dec (run sched (spawn s packets)))) \<le> 10 + K"
    and gate: "pc (run sched (spawn s packets)) = ReadPacket \<longrightarrow>
            length (audioFrameQueue (dec (run sched (spawn s packets)))) \<le> 10"
    using watermark_bound by blast+
  have wait: "pc sy = QueueCheck \<and> 10 < length (audioFrameQueue (dec sy)) \<longrightarrow>
      pc (step Worker sy) = Waiting" for sy
    by (simp add: worker_step_def)
  have stay: "pc sy = Waiting \<and> 5 < length (audioFrameQueue (dec sy)) \<and>
      \<not> shouldStop (dec sy) \<longrightarrow> step Worker sy = sy" for sy
    by (simp add: worker_step_def)
  show ?thesis using bound gate wait stay by blast
qed

theorem queue_bounded_witness:
  "length (audioFrameQueue (dec (run (replicate 16 Worker) (spawn started [burst_packet])))) \<le> 22"
proof -
  have a: "\<forall>packet \<in> set [burst_packet]. length (receives packet) \<le> 12"
    by (simp add: burst_packet_def)
  have b: "length (audioFrameQueue started) \<le> 10"
    by (simp add: started_fields)
  show ?thesis
    using queue_bounded [OF a b, of "replicate 16 Worker"] by simp
qed

text \<open>
  Claim C2 as stated fails: with eleven frames queued, no stop signal and no pop, the
  decode thread pushes a twelfth, since it is still inside the receive loop of one packet.
\<close>

theorem queue_bounded_counterexample:
  "length (audioFrameQueue (dec (run (replicate 15 Worker) (spawn started [burst_packet])))) = 11 \<and>
   \<not> shouldStop (dec (run (replicate 15 Worker) (spawn started [burst_packet]))) \<and>
   length (audioFrameQueue
     (dec (step Worker (run (replicate 15 Worker) (spawn started [burst_packet]))))) = 12"
  by code_simp



section \<open>Seeking\<close>




text \<open>
  The device is open only while playback is started: this holds of a decoder that has just
  opened a file, and starting, stopping, pausing and resuming keep it.
\<close>

lemma device_started:
  "audioDevice opened = 0 \<or> playbackStarted opened"
  "audioDevice s = 0 \<or> playbackStarted s \<Longrightarrow>
     audioDevice (snd (startPlayback dev s)) = 0 \<or> playbackStarted (snd (startPlayback dev s))"
  "audioDevice s = 0 \<or> playbackStarted s \<Longrightarrow>
     audioDevice (stopPlayback s) = 0 \<or> playbackStarted (stopPlayback s)"
  "audioDevice s = 0 \<or> playbackStarted s \<Longrightarrow>
     audioDevice (pausePlayback s) = 0 \<or> playbackStarted (pausePlayback s)"
  "audioDevice s = 0 \<or> playbackStarted s \<Longrightarrow>
     audioDevice (resumePlayback s) = 0 \<or> playbackStarted (resumePlayback s)"
  by (auto simp: opened_def startPlayback_def stopPlayback_def pausePlayback_def
      resumePlayback_def clearQueue_def clearBuffer_def setClock_def Let_def)



text \<open>
  Claim C6 at its failing input: a playing decoder on which \<^verbatim>\<open>av_seek_frame\<close> fails.
  \<^verbatim>\<open>seekToTime\<close> returns false and the clock is as before, but the decoder has been
  paused and is left paused: \<^verbatim>\<open>isPlaying()\<close> was true and is false afterwards.
\<close>

theorem seek_failure_leaves_paused:
  "fst (AudioDecoder_seekToTime 5 (- 1) quiet started) = False \<and>
   AudioDecoder_getCurrentTime (snd (AudioDecoder_seekToTime 5 (- 1) quiet started)) =
     AudioDecoder_getCurrentTime started \<and>
   isPlaying started \<and>
   \<not> isPlaying (snd (AudioDecoder_seekToTime 5 (- 1) quiet started)) \<and>
   calls (snd (AudioDecoder_seekToTime 5 (- 1) quiet started)) =
     calls started @ [SDL_PauseAudioDevice True, av_seek_frame 5]"
  by (simp add: AudioDecoder_seekToTime_def Let_def isPlaying_def pausePlayback_def
      AudioDecoder_getCurrentTime_def started_fields quiet_def)

section \<open>Conversion failures\<close>

text \<open>
  Claim C7, as the code has it. For every decoded frame, when the expected number of
  output samples is zero or negative, or when \<^verbatim>\<open>swr_convert\<close> reports an error,
  \<^verbatim>\<open>convertAudioFrame\<close> returns false, nothing is queued, and \<^verbatim>\<open>decodeNextFrame\<close> still
  returns true: both kinds of failure drop the frame and decoding goes on.
\<close>

theorem conversion_failure_dropped:
  assumes "outputSamples f \<le> 0 \<or> convertedSamples f < 0"
  shows "convertAudioFrame tb f = Inr None \<and> pushFrame f s = Inr s \<and>
         decodeNextFrame \<lparr>read_ret = 0, stream_index = audioStreamIndex s, send_ret = 0,
                          receives = [(0, f)]\<rparr> s = Inr (True, s)"
  using assms by (auto simp: convertAudioFrame_def pushFrame_def decodeNextFrame_def)

theorem conversion_failure_dropped_witness:
  "convertAudioFrame 1 (good_frame\<lparr>outputSamples := 0\<rparr>) = Inr None \<and>
   pushFrame (good_frame\<lparr>outputSamples := 0\<rparr>) started = Inr started"
proof -
  have h: "outputSamples (good_frame\<lparr>outputSamples := 0\<rparr>) \<le> 0 \<or>
           convertedSamples (good_frame\<lparr>outputSamples := 0\<rparr>) < 0"
    by simp
  show ?thesis
    using conversion_failure_dropped [OF h] by blast
qed

text \<open>
  Claim C7 as stated fails: a frame on which \<^verbatim>\<open>swr_convert\<close> reports the error
  \<^verbatim>\<open>AVERROR(EINVAL)\<close> leaves \<^verbatim>\<open>decodeNextFrame\<close> returning true with the decoder
  unchanged, and the decode thread back at the top of its loop.
\<close>

theorem conversion_failure_counterexample:
  "decodeNextFrame
     (good_packet\<lparr>receives := [(0, good_frame\<lparr>convertedSamples := - 22\<rparr>)]\<rparr>) started =
     Inr (True, started) \<and>
   run (replicate 6 Worker)
     (spawn started [good_packet\<lparr>receives := [(0, good_frame\<lparr>convertedSamples := - 22\<rparr>)]\<rparr>]) =
     spawn started []"
  by code_simp

section \<open>The player: clock, volume, stop\<close>

text \<open>
  Claim C8, as the code has it. \<^verbatim>\<open>MediaPlayer::getCurrentTime\<close> returns the video decoder's
  time whenever a video stream is loaded, and the audio clock only for a source with audio
  and no video; \<^verbatim>\<open>AudioDecoder::getCurrentTime\<close> is a plain read of the audio clock.
\<close>

theorem getCurrentTime_source:
  "(hasVideo mp \<longrightarrow> MediaPlayer_getCurrentTime mp = VideoDecoder_getCurrentTime (videoDecoder mp)) \<and>
   (\<not> hasVideo mp \<and> hasAudio mp \<longrightarrow>
      MediaPlayer_getCurrentTime mp = currentTime (audioDecoder mp)) \<and>
   AudioDecoder_getCurrentTime a = currentTime a"
  by (simp add: MediaPlayer_getCurrentTime_def AudioDecoder_getCurrentTime_def)

theorem getCurrentTime_source_witness:
  "\<not> hasVideo (audio_only\<lparr>audioDecoder := started\<lparr>currentTime := 5\<rparr>\<rparr>) \<and>
   hasAudio (audio_only\<lparr>audioDecoder := started\<lparr>currentTime := 5\<rparr>\<rparr>) \<and>
   MediaPlayer_getCurrentTime (audio_only\<lparr>audioDecoder := started\<lparr>currentTime := 5\<rparr>\<rparr>) = 5 \<and>
   hasVideo movie \<and>
   MediaPlayer_getCurrentTime movie = VideoDecoder_getCurrentTime video_seen"
proof -
  have h: "\<not> hasVideo (audio_only\<lparr>audioDecoder := started\<lparr>currentTime := 5\<rparr>\<rparr>)"
    "hasAudio (audio_only\<lparr>audioDecoder := started\<lparr>currentTime := 5\<rparr>\<rparr>)"
    "hasVideo movie" "videoDecoder movie = video_seen"
    by (simp_all add: audio_only_def movie_def)
  show ?thesis
    using getCurrentTime_source [of "audio_only\<lparr>audioDecoder := started\<lparr>currentTime := 5\<rparr>\<rparr>"]
      getCurrentTime_source [of movie] h
    by simp
qed

text \<open>
  Claim C8 as stated fails: with both streams loaded, the video frame shown last at 3
  seconds and the audio clock at 5 seconds, the player reports 3.
\<close>

theorem getCurrentTime_counterexample:
  "hasVideo movie \<and> hasAudio movie \<and> MediaPlayer_getCurrentTime movie = 3 \<and>
   AudioDecoder_getCurrentTime (audioDecoder movie) = 5"
  by (simp add: movie_def video_seen_def MediaPlayer_getCurrentTime_def
      VideoDecoder_getCurrentTime_def AudioDecoder_getCurrentTime_def)

text \<open>
  Claim C9, as the code has it. For every float \<open>v\<close> that is a number (finite or
  infinite), after \<^verbatim>\<open>setVolume(v)\<close> the stored volume is \<open>v\<close> clamped to \<open>[0, 1]\<close>, so
  \<^verbatim>\<open>getVolume()\<close> lies in \<open>[0, 1]\<close>; for every float, the audio decoder is untouched and
  the bytes the callback writes to the device are the same as without the call.
\<close>

theorem setVolume_clamped:
  "(v \<noteq> NaN \<longrightarrow>
      in_unit (getVolume (setVolume v mp)) \<and>
      getVolume (setVolume v mp) =
        (case v of Fin r \<Rightarrow> Fin (max 0 (min 1 r)) | PosInf \<Rightarrow> Fin 1 | _ \<Rightarrow> Fin 0)) \<and>
   audioDecoder (setVolume v mp) = audioDecoder mp \<and>
   fillAudioBuffer stream (audioDecoder (setVolume v mp)) = fillAudioBuffer stream (audioDecoder mp)"
  by (cases v) (auto simp: setVolume_def getVolume_def std_clamp_def)

theorem setVolume_clamped_witness:
  "getVolume (setVolume (Fin (3 / 2)) movie) = Fin 1 \<and>
   getVolume (setVolume (Fin (- 1 / 5)) movie) = Fin 0 \<and>
   getVolume (setVolume (Fin (2 / 5)) movie) = Fin (2 / 5) \<and>
   getVolume (setVolume PosInf movie) = Fin 1 \<and>
   getVolume (setVolume NegInf movie) = Fin 0"
  using setVolume_clamped [of "Fin (3 / 2)" movie] setVolume_clamped [of "Fin (- 1 / 5)" movie]
    setVolume_clamped [of "Fin (2 / 5)" movie] setVolume_clamped [of PosInf movie]
    setVolume_clamped [of NegInf movie]
  by simp

text \<open>
  Claim C9 as stated fails: \<^verbatim>\<open>setVolume\<close> of a float that is not a number stores it, and
  \<^verbatim>\<open>getVolume()\<close> is then outside \<open>[0, 1]\<close>.
\<close>

theorem setVolume_counterexample:
  "getVolume (setVolume NaN movie) = NaN \<and> \<not> in_unit (getVolume (setVolume NaN movie))"
  by (simp add: setVolume_def getVolume_def std_clamp_def)

lemma seek_quiet:
  assumes "formatContext a" and "\<not> isPlaying a"
  shows "snd (AudioDecoder_seekToTime 0 r quiet a) =
         (if 0 \<le> r
          then a\<lparr>audioFrameQueue := [], audioBuffer := [], bufferPosition := 0, currentTime := 0,
                 calls := calls a @ [av_seek_frame 0, avcodec_flush_buffers, queue_cleared,
                                     buffer_cleared, clock_set 0]\<rparr>
          else a\<lparr>calls := calls a @ [av_seek_frame 0]\<rparr>)"
  using assms
  by (simp add: AudioDecoder_seekToTime_def Let_def quiet_def clearQueue_def clearBuffer_def
      setClock_def)

lemma stopPlayback_effect:
  "formatContext (stopPlayback a) = formatContext a"
  "\<not> isPlaying (stopPlayback a)"
  "\<not> playbackStarted (stopPlayback a)"
  "playbackStarted a \<Longrightarrow>
     currentTime (stopPlayback a) = 0 \<and> audioFrameQueue (stopPlayback a) = [] \<and>
     audioBuffer (stopPlayback a) = [] \<and> audioDevice (stopPlayback a) = 0 \<and>
     shouldStop (stopPlayback a)"
  "\<not> playbackStarted a \<Longrightarrow> stopPlayback a = a"
  by (simp_all add: stopPlayback_def Let_def clearQueue_def clearBuffer_def setClock_def
      isPlaying_def)

text \<open>
  Claim C10, as the code has it. After \<^verbatim>\<open>MediaPlayer::stop()\<close> on an open media file,
  playback is halted and every open decoder has been asked to seek to 0 (the audio decoder
  after \<^verbatim>\<open>stopPlayback\<close>, which, when playback had been started, raises the stop signal,
  closes the device, empties the queue and the current block and sets the clock to 0).
  When the source has no video stream, and playback had been started or the audio seek
  succeeds, \<^verbatim>\<open>getCurrentTime()\<close> then returns 0. When a video stream is loaded,
  \<^verbatim>\<open>getCurrentTime()\<close> is the video decoder's time, which \<^verbatim>\<open>stop()\<close> leaves as it was.
  Pause keeps the position.
\<close>

theorem stop_rewinds:
  assumes "hasVideo mp \<or> hasAudio mp"
  shows "\<not> playing (MediaPlayer_stop vret aret mp) \<and>
         (hasVideo mp \<and> VideoDecoder_isFileOpen (videoDecoder mp) \<longrightarrow>
            video_calls (videoDecoder (MediaPlayer_stop vret aret mp)) =
              video_calls (videoDecoder mp) @
              av_seek_frame 0 # (if 0 \<le> vret then [avcodec_flush_buffers] else [])) \<and>
         (hasAudio mp \<longrightarrow>
            \<not> playbackStarted (audioDecoder (MediaPlayer_stop vret aret mp)) \<and>
            (playbackStarted (audioDecoder mp) \<longrightarrow>
               shouldStop (audioDecoder (MediaPlayer_stop vret aret mp)) \<and>
               audioDevice (audioDecoder (MediaPlayer_stop vret aret mp)) = 0 \<and>
               audioFrameQueue (audioDecoder (MediaPlayer_stop vret aret mp)) = [] \<and>
               audioBuffer (audioDecoder (MediaPlayer_stop vret aret mp)) = [])) \<and>
         (hasAudio mp \<and> AudioDecoder_isFileOpen (audioDecoder mp) \<longrightarrow>
            calls (audioDecoder (MediaPlayer_stop vret aret mp)) =
              calls (stopPlayback (audioDecoder mp)) @
              av_seek_frame 0 #
              (if 0 \<le> aret
               then [avcodec_flush_buffers, queue_cleared, buffer_cleared, clock_set 0]
               else [])) \<and>
         (\<not> hasVideo mp \<and>
          (playbackStarted (audioDecoder mp) \<or>
           AudioDecoder_isFileOpen (audioDecoder mp) \<and> 0 \<le> aret) \<longrightarrow>
            MediaPlayer_getCurrentTime (MediaPlayer_stop vret aret mp) = 0) \<and>
         (hasVideo mp \<longrightarrow>
            MediaPlayer_getCurrentTime (MediaPlayer_stop vret aret mp) =
              MediaPlayer_getCurrentTime mp) \<and>
         MediaPlayer_getCurrentTime (MediaPlayer_pause mp) = MediaPlayer_getCurrentTime mp"
proof -
  let ?a = "audioDecoder mp"
  let ?v = "videoDecoder mp"
  define a1 where "a1 = stopPlayback ?a"
  define a2 where "a2 = (if formatContext a1 then snd (AudioDecoder_seekToTime 0 aret quiet a1) else a1)"
  define v2 where "v2 = (if isOpen ?v then snd (VideoDecoder_seekToTime 0 vret ?v) else ?v)"
  have audio: "hasAudio mp \<Longrightarrow> audioDecoder (MediaPlayer_stop vret aret mp) = a2"
    by (simp add: MediaPlayer_stop_def Let_def a2_def a1_def AudioDecoder_isFileOpen_def)
  have video: "hasVideo mp \<Longrightarrow> videoDecoder (MediaPlayer_stop vret aret mp) = v2"
    using assms
    by (simp add: MediaPlayer_stop_def Let_def v2_def VideoDecoder_isFileOpen_def)
  have flags: "\<not> playing (MediaPlayer_stop vret aret mp)"
    "hasVideo (MediaPlayer_stop vret aret mp) = hasVideo mp"
    "hasAudio (MediaPlayer_stop vret aret mp) = hasAudio mp"
    using assms by (simp_all add: MediaPlayer_stop_def Let_def)
  have a2: "a2 =
      (if formatContext a1
       then (if 0 \<le> aret
          then a1\<lparr>audioFrameQueue := [], audioBuffer := [], bufferPosition := 0, currentTime := 0,
                 calls := calls a1 @ [av_seek_frame 0, avcodec_flush_buffers, queue_cleared,
                                     buffer_cleared, clock_set 0]\<rparr>
          else a1\<lparr>calls := calls a1 @ [av_seek_frame 0]\<rparr>)
       else a1)"
    using seek_quiet [of a1 aret] stopPlayback_effect(2) [of ?a]
    by (simp add: a2_def a1_def)
  have v2: "v2 =
      (if isOpen ?v
       then ?v\<lparr>video_calls := video_calls ?v @
                  av_seek_frame 0 # (if 0 \<le> vret then [avcodec_flush_buffers] else []),
               endOfStream := (if 0 \<le> vret then False else endOfStream ?v)\<rparr>
       else ?v)"
    by (simp add: v2_def VideoDecoder_seekToTime_def Let_def)
  have b: "hasVideo mp \<and> VideoDecoder_isFileOpen ?v \<longrightarrow>
            video_calls (videoDecoder (MediaPlayer_stop vret aret mp)) =
              video_calls ?v @ av_seek_frame 0 # (if 0 \<le> vret then [avcodec_flush_buffers] else [])"
    using video by (simp add: v2 VideoDecoder_isFileOpen_def)
  have c: "hasAudio mp \<longrightarrow>
            \<not> playbackStarted (audioDecoder (MediaPlayer_stop vret aret mp)) \<and>
            (playbackStarted ?a \<longrightarrow>
               shouldStop (audioDecoder (MediaPlayer_stop vret aret mp)) \<and>
               audioDevice (audioDecoder (MediaPlayer_stop vret aret mp)) = 0 \<and>
               audioFrameQueue (audioDecoder (MediaPlayer_stop vret aret mp)) = [] \<and>
               audioBuffer (audioDecoder (MediaPlayer_stop vret aret mp)) = [])"
    using audio stopPlayback_effect(3,4) [of ?a]
    by (auto simp: a2 a1_def)
  have d: "hasAudio mp \<and> AudioDecoder_isFileOpen ?a \<longrightarrow>
            calls (audioDecoder (MediaPlayer_stop vret aret mp)) =
              calls (stopPlayback ?a) @
              av_seek_frame 0 #
              (if 0 \<le> aret
               then [avcodec_flush_buffers, queue_cleared, buffer_cleared, clock_set 0]
               else [])"
    using audio stopPlayback_effect(1) [of ?a]
    by (auto simp: a2 a1_def AudioDecoder_isFileOpen_def)
  have e: "\<not> hasVideo mp \<and>
          (playbackStarted ?a \<or> AudioDecoder_isFileOpen ?a \<and> 0 \<le> aret) \<longrightarrow>
            MediaPlayer_getCurrentTime (MediaPlayer_stop vret aret mp) = 0"
  proof (intro impI, elim conjE)
    assume nv: "\<not> hasVideo mp"
      and cond: "playbackStarted ?a \<or> AudioDecoder_isFileOpen ?a \<and> 0 \<le> aret"
    from nv assms have ha: "hasAudio mp" by simp
    have "currentTime a2 = 0"
      using cond stopPlayback_effect(1,4,5) [of ?a]
      by (cases "playbackStarted ?a") (auto simp: a2 a1_def AudioDecoder_isFileOpen_def)
    then show "MediaPlayer_getCurrentTime (MediaPlayer_stop vret aret mp) = 0"
      using nv ha audio flags
      by (simp add: MediaPlayer_getCurrentTime_def AudioDecoder_getCurrentTime_def)
  qed
  have f: "hasVideo mp \<longrightarrow>
            MediaPlayer_getCurrentTime (MediaPlayer_stop vret aret mp) =
              MediaPlayer_getCurrentTime mp"
    using video flags
    by (auto simp: MediaPlayer_getCurrentTime_def VideoDecoder_getCurrentTime_def v2
        split: option.splits)
  have pause_time: "currentTime (pausePlayback a) = currentTime a" for a
    by (simp add: pausePlayback_def)
  have g: "MediaPlayer_getCurrentTime (MediaPlayer_pause mp) = MediaPlayer_getCurrentTime mp"
    by (simp add: MediaPlayer_pause_def Let_def MediaPlayer_getCurrentTime_def
        AudioDecoder_getCurrentTime_def pause_time)
  show ?thesis using flags(1) b c d e f g by blast
qed

theorem stop_rewinds_witness:
  "MediaPlayer_getCurrentTime midway = 5 \<and>
   length (audioFrameQueue (audioDecoder midway)) = 1 \<and>
   playing midway \<and>
   MediaPlayer_getCurrentTime (MediaPlayer_stop 0 0 midway) = 0 \<and>
   audioFrameQueue (audioDecoder (MediaPlayer_stop 0 0 midway)) = [] \<and>
   audioBuffer (audioDecoder (MediaPlayer_stop 0 0 midway)) = [] \<and>
   \<not> playbackStarted (audioDecoder (MediaPlayer_stop 0 0 midway)) \<and>
   shouldStop (audioDecoder (MediaPlayer_stop 0 0 midway)) \<and>
   audioDevice (audioDecoder (MediaPlayer_stop 0 0 midway)) = 0 \<and>
   \<not> playing (MediaPlayer_stop 0 0 midway) \<and>
   \<not> playing (MediaPlayer_stop 0 0 video_only) \<and>
   video_calls (videoDecoder (MediaPlayer_stop 0 0 video_only)) =
     [av_seek_frame 0, avcodec_flush_buffers]"
proof -
  have before: "MediaPlayer_getCurrentTime midway = 5"
    "length (audioFrameQueue (audioDecoder midway)) = 1" "playing midway"
    by code_simp+
  have h: "hasVideo midway \<or> hasAudio midway" "hasAudio midway" "\<not> hasVideo midway"
    "playbackStarted (audioDecoder midway)"
    by code_simp+
  have hv: "hasVideo video_only \<or> hasAudio video_only" "hasVideo video_only"
    "VideoDecoder_isFileOpen (videoDecoder video_only)" "video_calls (videoDecoder video_only) = []"
    by (simp_all add: video_only_def video_seen_def VideoDecoder_isFileOpen_def)
  have a: "MediaPlayer_getCurrentTime (MediaPlayer_stop 0 0 midway) = 0 \<and>
      audioFrameQueue (audioDecoder (MediaPlayer_stop 0 0 midway)) = [] \<and>
      audioBuffer (audioDecoder (MediaPlayer_stop 0 0 midway)) = [] \<and>
      \<not> playbackStarted (audioDecoder (MediaPlayer_stop 0 0 midway)) \<and>
      shouldStop (audioDecoder (MediaPlayer_stop 0 0 midway)) \<and>
      audioDevice (audioDecoder (MediaPlayer_stop 0 0 midway)) = 0 \<and>
      \<not> playing (MediaPlayer_stop 0 0 midway)"
    using stop_rewinds [OF h(1), of 0 0] h by blast
  have b: "\<not> playing (MediaPlayer_stop 0 0 video_only) \<and>
      video_calls (videoDecoder (MediaPlayer_stop 0 0 video_only)) =
        [av_seek_frame 0, avcodec_flush_buffers]"
    using stop_rewinds [OF hv(1), of 0 0] hv by simp
  show ?thesis using before a b by blast
qed

text \<open>
  Claim C10 as stated fails: with a video stream loaded, \<^verbatim>\<open>getCurrentTime()\<close> after
  \<^verbatim>\<open>stop()\<close> is still the time of the video frame decoded last, 3 seconds here, although
  both seeks to 0 succeed.
\<close>

theorem stop_counterexample:
  "hasVideo movie \<and> VideoDecoder_isFileOpen (videoDecoder movie) \<and>
   MediaPlayer_getCurrentTime (MediaPlayer_stop 0 0 movie) = 3"
  by (simp add: movie_def video_seen_def MediaPlayer_stop_def Let_def
      MediaPlayer_getCurrentTime_def VideoDecoder_getCurrentTime_def
      VideoDecoder_isFileOpen_def VideoDecoder_seekToTime_def)

end
